theory Spec2Isabelle
  imports Main
begin

section \<open>Python values used by update\_takeout\_metadata.py\<close>

text \<open>
  The script is Python; its strings are sequences of code points. Here a string is a
  \<^typ>\<open>string\<close> whose characters stand for the code points 0 to 255, which covers
  ASCII file names, dates and markers. The classifications below (white space, decimal
  digits, lower case) are those of Python on that range. A name or a text with a code
  point beyond it, such as a decimal digit of another script, is outside the model.
\<close>

datatype error =
    ValueError | TypeError | AttributeError | KeyError | OverflowError
  | RecursionError | OSError

definition and_then :: "error + 'a \<Rightarrow> ('a \<Rightarrow> error + 'b) \<Rightarrow> error + 'b" where
  \<comment> \<open>sequencing: an exception raised by the first step ends the computation\<close>
  "and_then x f = (case x of Inl e \<Rightarrow> Inl e | Inr v \<Rightarrow> f v)"

subsection \<open>Strings\<close>

definition is_space :: "char \<Rightarrow> bool" where
  \<comment> \<open>\<open>str.isspace\<close>, the characters removed by \<open>str.strip()\<close> and \<open>str.split()\<close>\<close>
  "is_space c =
     (let n = (of_char c :: nat)
      in (9 \<le> n \<and> n \<le> 13) \<or> (28 \<le> n \<and> n \<le> 32) \<or> n = 133 \<or> n = 160)"

definition int_space :: "char \<Rightarrow> bool" where
  \<comment> \<open>the white space that \<open>int(str)\<close> skips at both ends\<close>
  "int_space c =
     (let n = (of_char c :: nat)
      in (9 \<le> n \<and> n \<le> 13) \<or> n = 32 \<or> n = 133 \<or> n = 160)"

definition is_digit :: "char \<Rightarrow> bool" where
  \<comment> \<open>\<open>\d\<close> of \<open>re\<close> and the digits of \<open>int(str)\<close>\<close>
  "is_digit c = (c \<in> set ''0123456789'')"

definition digit_val :: "char \<Rightarrow> nat" where
  "digit_val c = of_char c - 48"

definition digit_char :: "nat \<Rightarrow> char" where
  "digit_char n = ''0123456789'' ! n"

definition lower_char :: "char \<Rightarrow> char" where
  "lower_char c =
     (let n = (of_char c :: nat)
      in if (65 \<le> n \<and> n \<le> 90) \<or> (192 \<le> n \<and> n \<le> 214) \<or> (216 \<le> n \<and> n \<le> 222)
         then char_of (n + 32) else c)"

definition lower :: "string \<Rightarrow> string" where
  "lower s = map lower_char s"

definition strip_with :: "(char \<Rightarrow> bool) \<Rightarrow> string \<Rightarrow> string" where
  "strip_with sp s = rev (dropWhile sp (rev (dropWhile sp s)))"

definition strip :: "string \<Rightarrow> string" where
  "strip s = strip_with is_space s"

fun startswith :: "string \<Rightarrow> string \<Rightarrow> bool" where
  \<comment> \<open>\<open>s.startswith(p)\<close>\<close>
  "startswith s [] = True"
| "startswith [] (p # ps) = False"
| "startswith (c # cs) (p # ps) = (c = p \<and> startswith cs ps)"

definition endswith :: "string \<Rightarrow> string \<Rightarrow> bool" where
  "endswith s p = startswith (rev s) (rev p)"

fun contains :: "string \<Rightarrow> string \<Rightarrow> bool" where
  \<comment> \<open>\<open>p in s\<close> on two strings\<close>
  "contains [] p = (p = [])"
| "contains (c # cs) p = (startswith (c # cs) p \<or> contains cs p)"

fun split_ws_acc :: "string \<Rightarrow> string \<Rightarrow> string list" where
  "split_ws_acc w [] = (if w = [] then [] else [w])"
| "split_ws_acc w (c # cs) =
     (if is_space c then (if w = [] then split_ws_acc [] cs else w # split_ws_acc [] cs)
      else split_ws_acc (w @ [c]) cs)"

definition split_ws :: "string \<Rightarrow> string list" where
  \<comment> \<open>\<open>s.split()\<close>: the maximal runs of characters that are not white space\<close>
  "split_ws s = split_ws_acc [] s"

fun split_on_acc :: "char \<Rightarrow> string \<Rightarrow> string \<Rightarrow> string list" where
  "split_on_acc sep w [] = [w]"
| "split_on_acc sep w (c # cs) =
     (if c = sep then w # split_on_acc sep [] cs else split_on_acc sep (w @ [c]) cs)"

definition split_on :: "char \<Rightarrow> string \<Rightarrow> string list" where
  \<comment> \<open>\<open>s.split(sep)\<close> for a separator of one character; empty pieces are kept\<close>
  "split_on sep s = split_on_acc sep [] s"

subsection \<open>Integers from and to text\<close>

fun grouped_digits :: "string \<Rightarrow> bool" where
  \<comment> \<open>digits, with single underscores allowed between two digits\<close>
  "grouped_digits [] = False"
| "grouped_digits [c] = is_digit c"
| "grouped_digits (c # d # cs) =
     (is_digit c \<and> (if d = CHR ''_'' then grouped_digits cs else grouped_digits (d # cs)))"

definition int_of_digits :: "string \<Rightarrow> int" where
  "int_of_digits ds = foldl (\<lambda>a c. 10 * a + int (digit_val c)) 0 ds"

definition max_str_digits :: nat where
  \<comment> \<open>\<open>sys.int_info.default_max_str_digits\<close>\<close>
  "max_str_digits = 4300"

definition py_int_str :: "string \<Rightarrow> error + int" where
  \<comment> \<open>\<open>int(s)\<close> for a string, base 10\<close>
  "py_int_str s =
     (let t = strip_with int_space s;
          neg = (t \<noteq> [] \<and> hd t = CHR ''-'');
          body = (if t \<noteq> [] \<and> (hd t = CHR ''-'' \<or> hd t = CHR ''+'') then tl t else t);
          ds = filter (\<lambda>c. c \<noteq> CHR ''_'') body
      in if \<not> grouped_digits body \<or> max_str_digits < length ds then Inl ValueError
         else Inr (if neg then - int_of_digits ds else int_of_digits ds))"

fun dec :: "nat \<Rightarrow> string" where
  \<comment> \<open>the decimal digits of a natural number\<close>
  "dec n = (if n < 10 then [digit_char n] else dec (n div 10) @ [digit_char (n mod 10)])"

declare dec.simps [simp del]

definition zfill :: "nat \<Rightarrow> string \<Rightarrow> string" where
  "zfill w s = replicate (w - length s) CHR ''0'' @ s"

definition fmt_0d :: "nat \<Rightarrow> int \<Rightarrow> string" where
  \<comment> \<open>the format specification \<open>0wd\<close> of an f-string, as in \<open>{year:04d}\<close>\<close>
  "fmt_0d w i =
     (if i < 0 then CHR ''-'' # zfill (w - 1) (dec (nat (- i))) else zfill w (dec (nat i)))"

subsection \<open>Decoded JSON\<close>

text \<open>
  \<open>json.load\<close> gives \<open>None\<close>, booleans, unbounded integers, floats, strings, lists and
  dictionaries. A float is kept as the dyadic number \<open>m * 2 ^ e\<close> it is, or as one of the
  three special values that \<open>json.load\<close> accepts. A dictionary is the list of its items,
  read with \<^const>\<open>map_of\<close>.
\<close>

datatype pyfloat = FNum int int | FInf bool | FNaN

datatype json =
    JNull | JBool bool | JInt int | JFloat pyfloat | JStr string
  | JArr "json list" | JObj "(string \<times> json) list"

fun float_nonzero :: "pyfloat \<Rightarrow> bool" where
  "float_nonzero (FNum m e) = (m \<noteq> 0)"
| "float_nonzero (FInf b) = True"
| "float_nonzero FNaN = True"

fun truthy :: "json \<Rightarrow> bool" where
  \<comment> \<open>\<open>bool(x)\<close>, the test of \<open>if x:\<close>\<close>
  "truthy JNull = False"
| "truthy (JBool b) = b"
| "truthy (JInt i) = (i \<noteq> 0)"
| "truthy (JFloat f) = float_nonzero f"
| "truthy (JStr s) = (s \<noteq> [])"
| "truthy (JArr xs) = (xs \<noteq> [])"
| "truthy (JObj kvs) = (kvs \<noteq> [])"

fun py_in :: "string \<Rightarrow> json \<Rightarrow> error + bool" where
  \<comment> \<open>\<open>k in x\<close> for a string \<open>k\<close>\<close>
  "py_in k (JObj kvs) = Inr (map_of kvs k \<noteq> None)"
| "py_in k (JArr xs) = Inr (JStr k \<in> set xs)"
| "py_in k (JStr s) = Inr (contains s k)"
| "py_in k x = Inl TypeError"

fun py_getitem :: "json \<Rightarrow> string \<Rightarrow> error + json" where
  \<comment> \<open>\<open>x[k]\<close> for a string \<open>k\<close>\<close>
  "py_getitem (JObj kvs) k = (case map_of kvs k of None \<Rightarrow> Inl KeyError | Some v \<Rightarrow> Inr v)"
| "py_getitem x k = Inl TypeError"

fun py_get :: "json \<Rightarrow> string \<Rightarrow> error + json" where
  \<comment> \<open>\<open>x.get(k)\<close>: only a dictionary has the method\<close>
  "py_get (JObj kvs) k = Inr (case map_of kvs k of None \<Rightarrow> JNull | Some v \<Rightarrow> v)"
| "py_get x k = Inl AttributeError"

fun float_trunc :: "pyfloat \<Rightarrow> error + int" where
  "float_trunc (FNum m e) =
     Inr (if 0 \<le> e then m * 2 ^ nat e
          else if 0 \<le> m then m div 2 ^ nat (- e) else - ((- m) div 2 ^ nat (- e)))"
| "float_trunc (FInf b) = Inl OverflowError"
| "float_trunc FNaN = Inl ValueError"

fun py_int :: "json \<Rightarrow> error + int" where
  \<comment> \<open>\<open>int(x)\<close>\<close>
  "py_int (JStr s) = py_int_str s"
| "py_int (JInt i) = Inr i"
| "py_int (JBool b) = Inr (if b then 1 else 0)"
| "py_int (JFloat f) = float_trunc f"
| "py_int x = Inl TypeError"

subsection \<open>datetime\<close>

text \<open>
  \<open>utcfromtimestamp\<close> reads the seconds since the epoch in the proleptic Gregorian
  calendar without leap seconds; the day number is turned into a date the way the
  \<open>datetime\<close> module does it (\<open>_ord2ymd\<close>). The errors for integers out of range are
  those of a platform with a 64-bit \<open>time_t\<close>.
\<close>

datatype datetime = Datetime int int int int int int

definition is_leap :: "int \<Rightarrow> bool" where
  "is_leap y = (y mod 4 = 0 \<and> (y mod 100 \<noteq> 0 \<or> y mod 400 = 0))"

definition days_in_month :: "int \<Rightarrow> int \<Rightarrow> int" where
  "days_in_month y m =
     (if m = 2 then (if is_leap y then 29 else 28)
      else if m = 4 \<or> m = 6 \<or> m = 9 \<or> m = 11 then 30 else 31)"

definition mk_datetime :: "int \<Rightarrow> int \<Rightarrow> int \<Rightarrow> int \<Rightarrow> int \<Rightarrow> int \<Rightarrow> error + datetime" where
  \<comment> \<open>\<open>datetime.datetime(year, month, day, hour, minute, second)\<close>\<close>
  "mk_datetime y mo d h mi s =
     (if 1 \<le> y \<and> y \<le> 9999 \<and> 1 \<le> mo \<and> mo \<le> 12 \<and> 1 \<le> d \<and> d \<le> days_in_month y mo
         \<and> 0 \<le> h \<and> h \<le> 23 \<and> 0 \<le> mi \<and> mi \<le> 59 \<and> 0 \<le> s \<and> s \<le> 59
      then Inr (Datetime y mo d h mi s) else Inl ValueError)"

definition days_before_month :: "bool \<Rightarrow> nat \<Rightarrow> int" where
  "days_before_month leap m =
     [0, 0, 31, 59, 90, 120, 151, 181, 212, 243, 273, 304, 334] ! m
       + (if 2 < m \<and> leap then 1 else 0)"

definition ord2ymd :: "int \<Rightarrow> int \<times> int \<times> int" where
  \<comment> \<open>day number (1 is 1 January of year 1) to year, month, day\<close>
  "ord2ymd n0 =
     (let n = n0 - 1;
          n400 = n div 146097; n = n mod 146097;
          n100 = n div 36524; n = n mod 36524;
          n4 = n div 1461; n = n mod 1461;
          n1 = n div 365; n = n mod 365;
          y = n400 * 400 + 1 + n100 * 100 + n4 * 4 + n1
      in if n1 = 4 \<or> n100 = 4 then (y - 1, 12, 31)
         else
           let leap = (n1 = 3 \<and> (n4 \<noteq> 24 \<or> n100 = 3));
               m = nat ((n + 50) div 32);
               m = (if n < days_before_month leap m then m - 1 else m)
           in (y, int m, n - days_before_month leap m + 1))"

definition utcfromtimestamp :: "int \<Rightarrow> error + datetime" where
  \<comment> \<open>\<open>datetime.datetime.utcfromtimestamp(n)\<close> for an integer, with a 64-bit \<open>time_t\<close>\<close>
  "utcfromtimestamp n =
     (if n < - (2 ^ 63) \<or> 2 ^ 63 \<le> n then Inl OverflowError
      else if n < - 67768040609740800 \<or> 67768036191676799 < n then Inl OSError
      else if n < - 62135596800 \<or> 253402300799 < n then Inl ValueError
      else
        let (y, mo, d) = ord2ymd (719163 + n div 86400); r = n mod 86400
        in Inr (Datetime y mo d (r div 3600) (r mod 3600 div 60) (r mod 60)))"

definition strftime :: "bool \<Rightarrow> datetime \<Rightarrow> string" where
  \<comment> \<open>\<open>dt.strftime("%Y:%m:%d %H:%M:%S")\<close>. The C library decides whether \<open>%Y\<close> fills a
      year below 1000 with zeros (\<open>pad\<close>) or prints it as it is.\<close>
  "strftime pad dt =
     (case dt of Datetime y mo d h mi s \<Rightarrow>
        (if pad then zfill 4 (dec (nat y)) else dec (nat y)) @ '':'' @ zfill 2 (dec (nat mo))
          @ '':'' @ zfill 2 (dec (nat d)) @ '' '' @ zfill 2 (dec (nat h)) @ '':''
          @ zfill 2 (dec (nat mi)) @ '':'' @ zfill 2 (dec (nat s)))"

subsection \<open>pathlib\<close>

text \<open>
  A path is its anchor (empty for a relative path) and its components. Only the
  operations the script uses are modelled.
\<close>

record path =
  anchor :: string
  parts :: "string list"

definition path_name :: "path \<Rightarrow> string" where
  \<comment> \<open>\<open>p.name\<close>\<close>
  "path_name p = (if parts p = [] then [] else last (parts p))"

definition path_parent :: "path \<Rightarrow> path" where
  \<comment> \<open>\<open>p.parent\<close>\<close>
  "path_parent p = p\<lparr>parts := butlast (parts p)\<rparr>"

definition name_suffix :: "string \<Rightarrow> string" where
  \<comment> \<open>the suffix of a file name: from its last dot, unless that dot is first or last\<close>
  "name_suffix n =
     (let r = takeWhile (\<lambda>c. c \<noteq> CHR ''.'') (rev n)
      in if length r = length n \<or> r = [] \<or> Suc (length r) = length n then []
         else drop (length n - Suc (length r)) n)"

definition path_suffix :: "path \<Rightarrow> string" where
  \<comment> \<open>\<open>p.suffix\<close>\<close>
  "path_suffix p = name_suffix (path_name p)"

definition path_stem :: "path \<Rightarrow> string" where
  \<comment> \<open>\<open>p.stem\<close>\<close>
  "path_stem p =
     (let n = path_name p in take (length n - length (name_suffix n)) n)"

definition path_child :: "path \<Rightarrow> string \<Rightarrow> path" where
  \<comment> \<open>\<open>p / n\<close> for a file name \<open>n\<close>\<close>
  "path_child p n = p\<lparr>parts := parts p @ [n]\<rparr>"

definition with_suffix :: "path \<Rightarrow> string \<Rightarrow> error + path" where
  \<comment> \<open>\<open>p.with_suffix(suffix)\<close>\<close>
  "with_suffix p suffix =
     (if CHR ''/'' \<in> set suffix \<or> (suffix \<noteq> [] \<and> \<not> startswith suffix ''.'') \<or> suffix = ''.''
      then Inl ValueError
      else if path_name p = [] then Inl ValueError
      else Inr (path_child (path_parent p) (path_stem p @ suffix)))"

fun join_parts :: "string list \<Rightarrow> string" where
  "join_parts [] = []"
| "join_parts [x] = x"
| "join_parts (x # y # xs) = x @ ''/'' @ join_parts (y # xs)"

definition path_str :: "path \<Rightarrow> string" where
  \<comment> \<open>\<open>str(p)\<close>\<close>
  "path_str p =
     (if anchor p = [] \<and> parts p = [] then ''.'' else anchor p @ join_parts (parts p))"

section \<open>Date resolution\<close>

definition MONTHS :: "(string \<times> int) list" where
  "MONTHS =
     [(''Jan'', 1), (''Feb'', 2), (''Mar'', 3), (''Apr'', 4),
      (''May'', 5), (''Jun'', 6), (''Jul'', 7), (''Aug'', 8),
      (''Sep'', 9), (''Oct'', 10), (''Nov'', 11), (''Dec'', 12)]"

definition MONTHS_get :: "string \<Rightarrow> int \<Rightarrow> int" where
  \<comment> \<open>\<open>MONTHS.get(k, d)\<close>\<close>
  "MONTHS_get k d = (case map_of MONTHS k of None \<Rightarrow> d | Some v \<Rightarrow> v)"

definition parse_google_formatted :: "bool \<Rightarrow> json \<Rightarrow> string option" where
  \<comment> \<open>Every exception raised inside is caught and gives \<open>None\<close>; a value that is not a
      string has no \<open>strip\<close> method, which is one of them.\<close>
  "parse_google_formatted pad date_str =
     (case date_str of
        JStr s \<Rightarrow>
          (let ps = split_ws (strip s)
           in if length ps < 4 then None
              else
                (case py_int_str (ps ! 0) of
                   Inl e \<Rightarrow> None
                 | Inr day \<Rightarrow>
                     (let month = MONTHS_get (ps ! 1) 0
                      in (case py_int_str (ps ! 2) of
                            Inl e \<Rightarrow> None
                          | Inr year \<Rightarrow>
                              (case map py_int_str (split_on CHR '':'' (ps ! 3)) of
                                 [Inr hour, Inr minute, Inr second] \<Rightarrow>
                                   (case mk_datetime year month day hour minute second of
                                      Inl e \<Rightarrow> None
                                    | Inr dt \<Rightarrow> Some (strftime pad dt))
                               | _ \<Rightarrow> None)))))
      | _ \<Rightarrow> None)"

fun search_year :: "string \<Rightarrow> string option" where
  \<comment> \<open>\<open>re.search(r"(19|20)\d{2}", s)\<close>: group 0 of the leftmost match\<close>
  "search_year [] = None"
| "search_year (c # cs) =
     (if (startswith (c # cs) ''19'' \<or> startswith (c # cs) ''20'') \<and> 4 \<le> length (c # cs)
         \<and> is_digit (cs ! 1) \<and> is_digit (cs ! 2)
      then Some (take 4 (c # cs)) else search_year cs)"

definition extract_date_from_folder :: "path \<Rightarrow> string option" where
  "extract_date_from_folder file_path =
     (let folder_name = path_name (path_parent file_path)
      in case search_year folder_name of
           Some g \<Rightarrow> Some (g @ '':01:01 12:00:00'')
         | None \<Rightarrow> None)"

definition match_stamp :: "string \<Rightarrow> string list option" where
  \<comment> \<open>the six groups of \<open>(\d{4})(\d{2})(\d{2})_(\d{2})(\d{2})(\d{2})\<close> matched at the
      start of \<open>s\<close>\<close>
  "match_stamp s =
     (if 15 \<le> length s \<and> list_all is_digit (take 8 s) \<and> s ! 8 = CHR ''_''
         \<and> list_all is_digit (take 6 (drop 9 s))
      then Some [take 4 s, take 2 (drop 4 s), take 2 (drop 6 s),
                 take 2 (drop 9 s), take 2 (drop 11 s), take 2 (drop 13 s)]
      else None)"

fun search_stamp :: "string \<Rightarrow> string list option" where
  \<comment> \<open>\<open>re.search\<close> of that pattern: the groups of the leftmost match\<close>
  "search_stamp [] = None"
| "search_stamp (c # cs) =
     (case match_stamp (c # cs) of Some g \<Rightarrow> Some g | None \<Rightarrow> search_stamp cs)"

definition extract_date_from_filename :: "path \<Rightarrow> string option" where
  \<comment> \<open>\<open>int\<close> of a group of two or four digits never fails, so the six integers are read
      with \<^const>\<open>int_of_digits\<close>.\<close>
  "extract_date_from_filename file_path =
     (case search_stamp (path_stem file_path) of
        Some g \<Rightarrow>
          (case map int_of_digits g of
             [year, month, day, hour, minute, second] \<Rightarrow>
               Some (fmt_0d 4 year @ '':'' @ fmt_0d 2 month @ '':'' @ fmt_0d 2 day @ '' ''
                     @ fmt_0d 2 hour @ '':'' @ fmt_0d 2 minute @ '':'' @ fmt_0d 2 second)
           | _ \<Rightarrow> None)
      | None \<Rightarrow> None)"

definition taken_time_date :: "bool \<Rightarrow> json \<Rightarrow> error + string option" where
  \<comment> \<open>The first block of \<open>resolve_date\<close> (Google JSON metadata): \<open>Inr (Some d)\<close> where it
      returns \<open>d\<close>, \<open>Inr None\<close> where control goes on to the file name, \<open>Inl\<close> where an
      exception leaves \<open>resolve_date\<close>.\<close>
  "taken_time_date pad json_data =
     (if \<not> truthy json_data then Inr None
      else and_then (py_in ''photoTakenTime'' json_data) (\<lambda>has_pt.
        if \<not> has_pt then Inr None
        else and_then (py_getitem json_data ''photoTakenTime'') (\<lambda>pt.
          and_then (py_in ''formatted'' pt) (\<lambda>has_f.
          and_then (if has_f then py_getitem pt ''formatted'' else Inr JNull) (\<lambda>f.
            case (if has_f \<and> truthy f then parse_google_formatted pad f else None) of
              Some exif_date \<Rightarrow> Inr (Some exif_date)
            | None \<Rightarrow>
                and_then (py_in ''timestamp'' pt) (\<lambda>has_t.
                and_then (if has_t then py_getitem pt ''timestamp'' else Inr JNull) (\<lambda>t.
                  if has_t \<and> truthy t
                  then and_then (py_int t) (\<lambda>n.
                       and_then (utcfromtimestamp n) (\<lambda>dt. Inr (Some (strftime pad dt))))
                  else Inr None)))))))"

definition resolve_date :: "bool \<Rightarrow> json \<Rightarrow> path \<Rightarrow> error + string option" where
  "resolve_date pad json_data file_path =
     and_then (taken_time_date pad json_data) (\<lambda>r.
       case r of
         Some exif_date \<Rightarrow> Inr (Some exif_date)
       | None \<Rightarrow>
           (case extract_date_from_filename file_path of
              Some date_from_filename \<Rightarrow> Inr (Some date_from_filename)
            | None \<Rightarrow> Inr (extract_date_from_folder file_path)))"

section \<open>Sidecar matching\<close>

definition glob_json :: "string list \<Rightarrow> string list" where
  \<comment> \<open>\<open>file_path.parent.glob("*.json")\<close> over the names of the directory, in the order
      the directory lists them\<close>
  "glob_json listing = filter (\<lambda>n. endswith n ''.json'') listing"

fun first_match :: "string \<Rightarrow> string list \<Rightarrow> string option" where
  \<comment> \<open>the \<open>for\<close> loop of \<open>find_matching_json\<close>\<close>
  "first_match base_name [] = None"
| "first_match base_name (f # fs) =
     (if startswith (lower f) base_name then Some f else first_match base_name fs)"

definition find_matching_json :: "string list \<Rightarrow> path \<Rightarrow> path option" where
  \<comment> \<open>\<open>listing\<close> holds the names in \<open>file_path.parent\<close>\<close>
  "find_matching_json listing file_path =
     (let base_name = lower (strip (path_name file_path))
      in map_option (path_child (path_parent file_path))
           (first_match base_name (glob_json listing)))"

section \<open>Writing the metadata\<close>

text \<open>
  The external tool and the file system are capabilities over a state \<open>'w\<close> of the
  world: \<open>subprocess.run\<close>, \<open>shutil.move\<close> and the names that a directory lists, in
  the order it lists them. Running a command and moving a file may raise; a directory
  that cannot be read lists nothing.
\<close>

record completed =
  returncode :: int
  stdout :: string
  stderr :: string

record 'w env =
  run :: "string list \<Rightarrow> 'w \<Rightarrow> (error + completed) \<times> 'w"
  move :: "path \<Rightarrow> path \<Rightarrow> 'w \<Rightarrow> (error + unit) \<times> 'w"
  listdir :: "path \<Rightarrow> 'w \<Rightarrow> string list"

type_synonym outcome = "string \<times> string option \<times> string option"

definition UPDATE_FILE_TIMESTAMP :: bool where
  "UPDATE_FILE_TIMESTAMP = True"

definition int_str :: "int \<Rightarrow> error + string" where
  \<comment> \<open>\<open>str(i)\<close>, which refuses more than \<^const>\<open>max_str_digits\<close> digits\<close>
  "int_str i =
     (let ds = dec (nat \<bar>i\<bar>)
      in if max_str_digits < length ds then Inl ValueError
         else Inr (if i < 0 then CHR ''-'' # ds else ds))"

fun py_str :: "(json \<Rightarrow> string) \<Rightarrow> json \<Rightarrow> error + string" where
  \<comment> \<open>\<open>f"{x}"\<close>. The text of a float, a list or a dictionary is left to \<open>fr\<close>.\<close>
  "py_str fr (JStr s) = Inr s"
| "py_str fr (JInt i) = int_str i"
| "py_str fr (JBool b) = Inr (if b then ''True'' else ''False'')"
| "py_str fr JNull = Inr ''None''"
| "py_str fr x = Inr (fr x)"

definition gps_flags :: "(json \<Rightarrow> string) \<Rightarrow> json \<Rightarrow> error + string list" where
  \<comment> \<open>lines 108 to 114 of the script, for a truthy \<open>json_data\<close>\<close>
  "gps_flags fr json_data =
     and_then (py_get json_data ''geoDataExif'') (\<lambda>g1.
     and_then (if truthy g1 then Inr g1 else py_get json_data ''geoData'') (\<lambda>geo.
       if truthy geo
       then and_then (py_get geo ''latitude'') (\<lambda>lat.
            and_then (py_get geo ''longitude'') (\<lambda>lon.
              if truthy lat \<and> truthy lon
              then and_then (py_str fr lat) (\<lambda>slat.
                   and_then (py_str fr lon) (\<lambda>slon.
                     Inr [''-GPSLatitude='' @ slat, ''-GPSLongitude='' @ slon]))
              else Inr []))
       else Inr []))"

definition description_flag :: "(json \<Rightarrow> string) \<Rightarrow> json \<Rightarrow> error + string list" where
  \<comment> \<open>lines 116 and 117 of the script\<close>
  "description_flag fr json_data =
     and_then (py_in ''description'' json_data) (\<lambda>has_d.
     and_then (if has_d then py_getitem json_data ''description'' else Inr JNull) (\<lambda>d.
       if has_d \<and> truthy d
       then and_then (py_str fr d) (\<lambda>sd. Inr [''-ImageDescription='' @ sd])
       else Inr []))"

definition build_cmd :: "(json \<Rightarrow> string) \<Rightarrow> string \<Rightarrow> json \<Rightarrow> path \<Rightarrow> error + string list" where
  \<comment> \<open>lines 95 to 119 of \<open>update_exif\<close>: the command handed to the tool\<close>
  "build_cmd fr date_str json_data file_path =
     (let cmd = [''exiftool'', ''-overwrite_original'', ''-ignoreMinorErrors'',
                 ''-DateTimeOriginal='' @ date_str, ''-CreateDate='' @ date_str,
                 ''-ModifyDate='' @ date_str];
          cmd = (if UPDATE_FILE_TIMESTAMP then cmd @ [''-FileModifyDate='' @ date_str] else cmd)
      in and_then (if truthy json_data
                   then and_then (gps_flags fr json_data) (\<lambda>gps.
                        and_then (description_flag fr json_data) (\<lambda>ds. Inr (gps @ ds)))
                   else Inr [])
           (\<lambda>extra. Inr (cmd @ extra @ [path_str file_path])))"

definition mismatch :: "string \<Rightarrow> bool" where
  \<comment> \<open>the test of line 124\<close>
  "mismatch err = (contains err ''Not a valid HEIC'' \<or> contains err ''Not a valid JPEG'')"

definition rename_sidecar :: "'w env \<Rightarrow> path \<Rightarrow> path \<Rightarrow> json \<Rightarrow> 'w \<Rightarrow> (error + unit) \<times> 'w" where
  \<comment> \<open>lines 127 to 131 of the script\<close>
  "rename_sidecar E file_path new_file json_data w =
     (if truthy json_data
      then (case find_matching_json (listdir E (path_parent file_path) w) file_path of
              Some old_json \<Rightarrow>
                move E old_json
                  (path_child (path_parent new_file) (path_stem new_file @ path_suffix old_json)) w
            | None \<Rightarrow> (Inr (), w))
      else (Inr (), w))"

fun update_exif ::
  "'w env \<Rightarrow> bool \<Rightarrow> (json \<Rightarrow> string) \<Rightarrow> nat \<Rightarrow> path \<Rightarrow> json \<Rightarrow> 'w \<Rightarrow> (error + outcome) \<times> 'w"
where
  \<comment> \<open>The natural number is the depth of recursion the interpreter still allows; when it
      is used up the call raises \<open>RecursionError\<close>.\<close>
  "update_exif E pad fr 0 file_path json_data w = (Inl RecursionError, w)"
| "update_exif E pad fr (Suc depth) file_path json_data w =
     (case resolve_date pad json_data file_path of
        Inl e \<Rightarrow> (Inl e, w)
      | Inr None \<Rightarrow> (Inr (''SKIPPED'', None, Some ''No date available''), w)
      | Inr (Some date_str) \<Rightarrow>
          if date_str = [] then (Inr (''SKIPPED'', None, Some ''No date available''), w)
          else
            (case build_cmd fr date_str json_data file_path of
               Inl e \<Rightarrow> (Inl e, w)
             | Inr cmd \<Rightarrow>
                 (case run E cmd w of
                    (Inl e, w1) \<Rightarrow> (Inl e, w1)
                  | (Inr result, w1) \<Rightarrow>
                      (let err = strip (stderr result)
                       in if mismatch err
                          then
                            (case with_suffix file_path ''.jpg'' of
                               Inl e \<Rightarrow> (Inl e, w1)
                             | Inr new_file \<Rightarrow>
                                 (case move E file_path new_file w1 of
                                    (Inl e, w2) \<Rightarrow> (Inl e, w2)
                                  | (Inr u, w2) \<Rightarrow>
                                      (case rename_sidecar E file_path new_file json_data w2 of
                                         (Inl e, w3) \<Rightarrow> (Inl e, w3)
                                       | (Inr u, w3) \<Rightarrow>
                                           update_exif E pad fr depth new_file json_data w3)))
                          else if contains err ''OtherImageStart''
                          then (Inr (''SKIPPED'', Some date_str, Some err), w1)
                          else if returncode result \<noteq> 0
                          then (Inr (''FAILED'', Some date_str,
                                     Some (if err = [] then ''Exiftool failed'' else err)), w1)
                          else
                            (case run E [''exiftool'', ''-ignoreMinorErrors'',
                                         ''-DateTimeOriginal'', ''-s3'', path_str file_path] w1 of
                               (Inl e, w2) \<Rightarrow> (Inl e, w2)
                             | (Inr validate, w2) \<Rightarrow>
                                 (let actual = strip (stdout validate)
                                  in if actual \<noteq> date_str
                                     then (Inr (''FAILED'', Some date_str,
                                                Some (''Validation mismatch (read '' @ actual @ '')'')), w2)
                                     else (Inr (''UPDATED'', Some date_str, None), w2)))))))"

section \<open>Notions used to state the properties\<close>

definition named_sidecar :: "string \<Rightarrow> string \<Rightarrow> bool" where
  \<comment> \<open>\<open>n\<close> is the name of a JSON file that starts, without regard to case, with \<open>media\<close>\<close>
  "named_sidecar media n = (endswith n ''.json'' \<and> startswith (lower n) (lower media))"

definition chosen_geo :: "(string \<times> json) list \<Rightarrow> json" where
  \<comment> \<open>the geolocation object of a sidecar: \<open>geoDataExif\<close> when it is truthy, else
      \<open>geoData\<close>; \<open>None\<close> stands for an absent key\<close>
  "chosen_geo kvs =
     (let exif = (case map_of kvs ''geoDataExif'' of Some g \<Rightarrow> g | None \<Rightarrow> JNull)
      in if truthy exif then exif
         else (case map_of kvs ''geoData'' of Some g \<Rightarrow> g | None \<Rightarrow> JNull))"

definition coordinates :: "json \<Rightarrow> (json \<times> json) option" where
  \<comment> \<open>latitude and longitude of a geolocation object, when both are present and truthy\<close>
  "coordinates geo =
     (case geo of
        JObj fs \<Rightarrow>
          (case (map_of fs ''latitude'', map_of fs ''longitude'') of
             (Some lat, Some lon) \<Rightarrow> if truthy lat \<and> truthy lon then Some (lat, lon) else None
           | _ \<Rightarrow> None)
      | _ \<Rightarrow> None)"

definition sidecar_coordinates :: "json \<Rightarrow> (json \<times> json) option" where
  "sidecar_coordinates j = (case j of JObj kvs \<Rightarrow> coordinates (chosen_geo kvs) | _ \<Rightarrow> None)"

definition gps_args :: "string list \<Rightarrow> string list" where
  \<comment> \<open>the GPS flags of a command; its last element is the path of the file\<close>
  "gps_args cmd = filter (\<lambda>a. startswith a ''-GPS'') (butlast cmd)"

fun zero_number :: "json \<Rightarrow> bool" where
  "zero_number (JInt i) = (i = 0)"
| "zero_number (JFloat (FNum m e)) = (m = 0)"
| "zero_number x = False"

definition canonical :: "string \<Rightarrow> bool" where
  \<comment> \<open>the shape \<open>YYYY:MM:DD HH:MM:SS\<close>: nineteen characters, digits but for the four
      colons and the space\<close>
  "canonical s =
     (length s = 19
      \<and> list_all is_digit (take 4 s) \<and> s ! 4 = CHR '':''
      \<and> list_all is_digit (take 2 (drop 5 s)) \<and> s ! 7 = CHR '':''
      \<and> list_all is_digit (take 2 (drop 8 s)) \<and> s ! 10 = CHR '' ''
      \<and> list_all is_digit (take 2 (drop 11 s)) \<and> s ! 13 = CHR '':''
      \<and> list_all is_digit (take 2 (drop 14 s)) \<and> s ! 16 = CHR '':''
      \<and> list_all is_digit (take 2 (drop 17 s)))"

definition valid_datetime :: "datetime \<Rightarrow> bool" where
  \<comment> \<open>a date of the proleptic Gregorian calendar in the years 1 to 9999, with a time of day\<close>
  "valid_datetime dt =
     (case dt of Datetime y mo d h mi s \<Rightarrow>
        1 \<le> y \<and> y \<le> 9999 \<and> 1 \<le> mo \<and> mo \<le> 12 \<and> 1 \<le> d \<and> d \<le> days_in_month y mo
        \<and> 0 \<le> h \<and> h \<le> 23 \<and> 0 \<le> mi \<and> mi \<le> 59 \<and> 0 \<le> s \<and> s \<le> 59)"

definition days_before_year :: "int \<Rightarrow> int" where
  \<comment> \<open>the number of days before 1 January of year \<open>y\<close>, counted from 1 January of year 1\<close>
  "days_before_year y = 365 * (y - 1) + (y - 1) div 4 - (y - 1) div 100 + (y - 1) div 400"

definition ymd2ord :: "int \<Rightarrow> int \<Rightarrow> int \<Rightarrow> int" where
  \<comment> \<open>the day number of a date; 1 January of year 1 is day 1\<close>
  "ymd2ord y m d = days_before_year y + days_before_month (is_leap y) (nat m) + d"

definition timegm :: "datetime \<Rightarrow> int" where
  \<comment> \<open>the seconds from 1970-01-01 00:00:00 UTC to a date and time read as UTC\<close>
  "timegm dt =
     (case dt of Datetime y mo d h mi s \<Rightarrow>
        (ymd2ord y mo d - 719163) * 86400 + h * 3600 + mi * 60 + s)"

definition canonical_form :: "datetime \<Rightarrow> string" where
  \<comment> \<open>a date and time written \<open>YYYY:MM:DD HH:MM:SS\<close>, every field filled with zeros\<close>
  "canonical_form dt =
     (case dt of Datetime y mo d h mi s \<Rightarrow>
        fmt_0d 4 y @ '':'' @ fmt_0d 2 mo @ '':'' @ fmt_0d 2 d @ '' '' @ fmt_0d 2 h @ '':''
          @ fmt_0d 2 mi @ '':'' @ fmt_0d 2 s)"

section \<open>A small world for concrete runs\<close>

text \<open>
  One directory, given by the list of its names. The tool always exits with code 1; it
  reports the benign warning for a file whose name ends in \<open>.jpg\<close> and a format mismatch
  for any other. Moving a file renames its entry.
\<close>

definition example_env :: "(string list) env" where
  "example_env =
     \<lparr>run = (\<lambda>cmd w.
        (Inr \<lparr>returncode = 1, stdout = [],
              stderr = (if endswith (last cmd) ''.jpg'' then ''Warning: [minor] OtherImageStart  ''
                        else ''Error: Not a valid HEIC (looks more like a JPEG)'')\<rparr>, w)),
      move = (\<lambda>src dst w. (Inr (), map (\<lambda>n. if n = path_name src then path_name dst else n) w)),
      listdir = (\<lambda>d w. w)\<rparr>"

section \<open>Properties\<close>

lemma and_then_simps [simp]:
  "and_then (Inl e) f = Inl e" "and_then (Inr v) f = f v"
  by (simp_all add: and_then_def)

subsection \<open>The formatted capture time\<close>

text \<open>
  C1. A sidecar whose \<open>photoTakenTime.formatted\<close> is a valid capture time in the form
  \<open>D Mon YYYY, HH:MM:SS\<close> should resolve to that time in canonical form. The script splits
  the text at white space and converts the third word with \<open>int\<close>; in the documented form
  that word is the year followed by a comma, \<open>int\<close> raises, and the parser gives \<open>None\<close>.
  With no other source of a date, \<open>resolve_date\<close> returns \<open>None\<close> for the example of the
  specification instead of \<open>2023:01:26 20:39:29\<close>.
\<close>

theorem formatted_with_comma_not_parsed:
  "parse_google_formatted pad (JStr ''26 Jan 2023, 20:39:29'') = None
   \<and> resolve_date pad
         (JObj [(''photoTakenTime'', JObj [(''formatted'', JStr ''26 Jan 2023, 20:39:29'')])])
         \<lparr>anchor = ''/'', parts = [''Takeout'', ''Album'', ''IMG.jpg'']\<rparr> = Inr None"
proof -
  have a: "parse_google_formatted pad (JStr ''26 Jan 2023, 20:39:29'') = None"
    by (simp add: parse_google_formatted_def strip_def strip_with_def split_ws_def is_space_def
        py_int_str_def int_space_def is_digit_def Let_def max_str_digits_def)
  have b: "extract_date_from_filename \<lparr>anchor = ''/'', parts = [''Takeout'', ''Album'', ''IMG.jpg'']\<rparr> = None"
    by code_simp
  have c: "extract_date_from_folder \<lparr>anchor = ''/'', parts = [''Takeout'', ''Album'', ''IMG.jpg'']\<rparr> = None"
    by code_simp
  show ?thesis
    using a b c by (simp add: resolve_date_def taken_time_date_def)
qed

text \<open>The same time without the comma is parsed.\<close>

lemma formatted_without_comma_parsed:
  "parse_google_formatted True (JStr ''26 Jan 2023 20:39:29'') = Some ''2023:01:26 20:39:29''"
  by code_simp

subsection \<open>Outcomes of the write\<close>




text \<open>
  C7. When the tool's error output contains \<open>OtherImageStart\<close> and no format-mismatch
  marker, \<open>update_exif\<close> returns \<open>SKIPPED\<close> with the resolved date and that output,
  whatever the exit code of the tool is.
\<close>

theorem other_image_start_is_skipped:
  assumes "resolve_date pad json_data file_path = Inr (Some date_str)"
    and "date_str \<noteq> []"
    and "build_cmd fr date_str json_data file_path = Inr cmd"
    and "run E cmd w = (Inr result, w1)"
    and "contains (strip (stderr result)) ''OtherImageStart''"
    and "\<not> mismatch (strip (stderr result))"
  shows "update_exif E pad fr (Suc depth) file_path json_data w
           = (Inr (''SKIPPED'', Some date_str, Some (strip (stderr result))), w1)"
  using assms by simp

theorem other_image_start_is_skipped_witness:
  "resolve_date True JNull \<lparr>anchor = [], parts = [''Photos 2019'', ''IMG.jpg'']\<rparr>
       = Inr (Some ''2019:01:01 12:00:00'')
   \<and> returncode (fst (projr (fst (run example_env
         [''exiftool'', ''-overwrite_original'', ''-ignoreMinorErrors'',
          ''-DateTimeOriginal=2019:01:01 12:00:00'', ''-CreateDate=2019:01:01 12:00:00'',
          ''-ModifyDate=2019:01:01 12:00:00'', ''-FileModifyDate=2019:01:01 12:00:00'',
          ''Photos 2019/IMG.jpg''] [''IMG.jpg''])), ())) = 1
   \<and> update_exif example_env True (\<lambda>x. []) (Suc 0)
         \<lparr>anchor = [], parts = [''Photos 2019'', ''IMG.jpg'']\<rparr> JNull [''IMG.jpg'']
       = (Inr (''SKIPPED'', Some ''2019:01:01 12:00:00'',
               Some ''Warning: [minor] OtherImageStart''), [''IMG.jpg''])"
proof -
  let ?p = "\<lparr>anchor = [], parts = [''Photos 2019'', ''IMG.jpg'']\<rparr>"
  let ?cmd = "[''exiftool'', ''-overwrite_original'', ''-ignoreMinorErrors'',
          ''-DateTimeOriginal=2019:01:01 12:00:00'', ''-CreateDate=2019:01:01 12:00:00'',
          ''-ModifyDate=2019:01:01 12:00:00'', ''-FileModifyDate=2019:01:01 12:00:00'',
          ''Photos 2019/IMG.jpg'']"
  let ?r = "\<lparr>returncode = 1, stdout = [], stderr = ''Warning: [minor] OtherImageStart  ''\<rparr>"
  have h1: "resolve_date True JNull ?p = Inr (Some ''2019:01:01 12:00:00'')"
    by code_simp
  have h2: "''2019:01:01 12:00:00'' \<noteq> []"
    by simp
  have h3: "build_cmd (\<lambda>x. []) ''2019:01:01 12:00:00'' JNull ?p = Inr ?cmd"
    by code_simp
  have h4: "run example_env ?cmd [''IMG.jpg''] = (Inr ?r, [''IMG.jpg''])"
    by code_simp
  have h5: "contains (strip (stderr ?r)) ''OtherImageStart''"
    by code_simp
  have h6: "\<not> mismatch (strip (stderr ?r))"
    by code_simp
  have s: "strip (stderr ?r) = ''Warning: [minor] OtherImageStart''"
    by code_simp
  show ?thesis
    using other_image_start_is_skipped [OF h1 h2 h3 h4 h5 h6, of 0] h1 h4 s by simp
qed

text \<open>
  C4. When the tool's error output contains a format-mismatch marker, \<open>update_exif\<close>
  renames the file to the suffix \<open>.jpg\<close>, renames the matched sidecar to the new stem with
  the sidecar's own suffix, and its result is the result of \<open>update_exif\<close> on the renamed
  file in the world so changed. The sidecar is looked up and renamed only when
  \<open>json_data\<close> is truthy: a sidecar whose content is an empty object keeps its name.
\<close>

theorem mismatch_renames_and_retries:
  assumes "resolve_date pad json_data file_path = Inr (Some date_str)"
    and "date_str \<noteq> []"
    and "build_cmd fr date_str json_data file_path = Inr cmd"
    and "run E cmd w = (Inr result, w1)"
    and "mismatch (strip (stderr result))"
    and "with_suffix file_path ''.jpg'' = Inr new_file"
    and "move E file_path new_file w1 = (Inr (), w2)"
    and "(truthy json_data
           \<and> (\<exists>old_json. find_matching_json (listdir E (path_parent file_path) w2) file_path
                              = Some old_json
                 \<and> move E old_json
                      (path_child (path_parent new_file) (path_stem new_file @ path_suffix old_json))
                      w2 = (Inr (), w3)))
         \<or> ((\<not> truthy json_data
               \<or> find_matching_json (listdir E (path_parent file_path) w2) file_path = None)
             \<and> w3 = w2)"
  shows "path_name new_file = path_stem file_path @ ''.jpg''
       \<and> path_parent new_file = path_parent file_path
       \<and> update_exif E pad fr (Suc depth) file_path json_data w
           = update_exif E pad fr depth new_file json_data w3"
proof -
  have nf: "new_file = path_child (path_parent file_path) (path_stem file_path @ ''.jpg'')"
    using assms(6) by (simp add: with_suffix_def split: if_splits)
  have rs: "rename_sidecar E file_path new_file json_data w2 = (Inr (), w3)"
    using assms(8) by (auto simp add: rename_sidecar_def)
  have "update_exif E pad fr (Suc depth) file_path json_data w
           = update_exif E pad fr depth new_file json_data w3"
    using assms(1-7) rs by simp
  then show ?thesis
    by (simp add: nf path_name_def path_child_def path_parent_def)
qed

theorem mismatch_renames_and_retries_witness:
  "mismatch (strip ''Error: Not a valid HEIC (looks more like a JPEG)'')
   \<and> find_matching_json [''IMG.jpg'', ''IMG.HEIC.json'']
         \<lparr>anchor = [], parts = [''Photos 2019'', ''IMG.HEIC'']\<rparr>
       = Some \<lparr>anchor = [], parts = [''Photos 2019'', ''IMG.HEIC.json'']\<rparr>
   \<and> update_exif example_env True (\<lambda>x. []) (Suc (Suc 0))
         \<lparr>anchor = [], parts = [''Photos 2019'', ''IMG.HEIC'']\<rparr>
         (JObj [(''title'', JStr ''IMG.HEIC'')]) [''IMG.HEIC'', ''IMG.HEIC.json'']
       = update_exif example_env True (\<lambda>x. []) (Suc 0)
           \<lparr>anchor = [], parts = [''Photos 2019'', ''IMG.jpg'']\<rparr>
           (JObj [(''title'', JStr ''IMG.HEIC'')]) [''IMG.jpg'', ''IMG.json'']
   \<and> update_exif example_env True (\<lambda>x. []) (Suc 0)
         \<lparr>anchor = [], parts = [''Photos 2019'', ''IMG.jpg'']\<rparr>
         (JObj [(''title'', JStr ''IMG.HEIC'')]) [''IMG.jpg'', ''IMG.json'']
       = (Inr (''SKIPPED'', Some ''2019:01:01 12:00:00'',
               Some ''Warning: [minor] OtherImageStart''), [''IMG.jpg'', ''IMG.json''])"
proof -
  let ?p = "\<lparr>anchor = [], parts = [''Photos 2019'', ''IMG.HEIC'']\<rparr>"
  let ?n = "\<lparr>anchor = [], parts = [''Photos 2019'', ''IMG.jpg'']\<rparr>"
  let ?o = "\<lparr>anchor = [], parts = [''Photos 2019'', ''IMG.HEIC.json'']\<rparr>"
  let ?j = "JObj [(''title'', JStr ''IMG.HEIC'')]"
  let ?cmd = "[''exiftool'', ''-overwrite_original'', ''-ignoreMinorErrors'',
          ''-DateTimeOriginal=2019:01:01 12:00:00'', ''-CreateDate=2019:01:01 12:00:00'',
          ''-ModifyDate=2019:01:01 12:00:00'', ''-FileModifyDate=2019:01:01 12:00:00'',
          ''Photos 2019/IMG.HEIC'']"
  let ?r = "\<lparr>returncode = 1, stdout = [],
             stderr = ''Error: Not a valid HEIC (looks more like a JPEG)''\<rparr>"
  have h1: "resolve_date True ?j ?p = Inr (Some ''2019:01:01 12:00:00'')"
    by code_simp
  have h2: "''2019:01:01 12:00:00'' \<noteq> []"
    by simp
  have h3: "build_cmd (\<lambda>x. []) ''2019:01:01 12:00:00'' ?j ?p = Inr ?cmd"
    by code_simp
  have h4: "run example_env ?cmd [''IMG.HEIC'', ''IMG.HEIC.json'']
              = (Inr ?r, [''IMG.HEIC'', ''IMG.HEIC.json''])"
    by code_simp
  have m: "mismatch (strip ''Error: Not a valid HEIC (looks more like a JPEG)'')"
    by code_simp
  have h5: "mismatch (strip (stderr ?r))"
    using m by simp
  have h6: "with_suffix ?p ''.jpg'' = Inr ?n"
    by code_simp
  have h7: "move example_env ?p ?n [''IMG.HEIC'', ''IMG.HEIC.json'']
              = (Inr (), [''IMG.jpg'', ''IMG.HEIC.json''])"
    by code_simp
  have f: "find_matching_json [''IMG.jpg'', ''IMG.HEIC.json''] ?p = Some ?o"
    by code_simp
  have l: "listdir example_env (path_parent ?p) [''IMG.jpg'', ''IMG.HEIC.json'']
             = [''IMG.jpg'', ''IMG.HEIC.json'']"
    by code_simp
  have mv: "move example_env ?o (path_child (path_parent ?n) (path_stem ?n @ path_suffix ?o))
              [''IMG.jpg'', ''IMG.HEIC.json''] = (Inr (), [''IMG.jpg'', ''IMG.json''])"
    by code_simp
  have h8: "(truthy ?j
           \<and> (\<exists>old_json. find_matching_json
                   (listdir example_env (path_parent ?p) [''IMG.jpg'', ''IMG.HEIC.json'']) ?p
                              = Some old_json
                 \<and> move example_env old_json
                      (path_child (path_parent ?n) (path_stem ?n @ path_suffix old_json))
                      [''IMG.jpg'', ''IMG.HEIC.json''] = (Inr (), [''IMG.jpg'', ''IMG.json''])))
         \<or> ((\<not> truthy ?j
               \<or> find_matching_json
                    (listdir example_env (path_parent ?p) [''IMG.jpg'', ''IMG.HEIC.json'']) ?p = None)
             \<and> [''IMG.jpg'', ''IMG.json''] = [''IMG.jpg'', ''IMG.HEIC.json''])"
    using f mv unfolding l by simp
  have e: "update_exif example_env True (\<lambda>x. []) (Suc 0) ?n ?j [''IMG.jpg'', ''IMG.json'']
       = (Inr (''SKIPPED'', Some ''2019:01:01 12:00:00'',
               Some ''Warning: [minor] OtherImageStart''), [''IMG.jpg'', ''IMG.json''])"
    by code_simp
  show ?thesis
    using mismatch_renames_and_retries [OF h1 h2 h3 h4 h5 h6 h7 h8, of "Suc 0"] m f e
    by simp
qed

text \<open>
  As C4 is worded, the matched sidecar is renamed whenever there is one. Here the sidecar
  \<open>IMG.HEIC.json\<close> matches the file but holds the empty object: the file becomes
  \<open>IMG.jpg\<close> and the sidecar keeps its name.
\<close>

theorem empty_sidecar_not_renamed:
  "find_matching_json [''IMG.HEIC'', ''IMG.HEIC.json'']
       \<lparr>anchor = [], parts = [''Photos 2019'', ''IMG.HEIC'']\<rparr>
     = Some \<lparr>anchor = [], parts = [''Photos 2019'', ''IMG.HEIC.json'']\<rparr>
   \<and> update_exif example_env True (\<lambda>x. []) (Suc (Suc 0))
         \<lparr>anchor = [], parts = [''Photos 2019'', ''IMG.HEIC'']\<rparr> (JObj [])
         [''IMG.HEIC'', ''IMG.HEIC.json'']
       = (Inr (''SKIPPED'', Some ''2019:01:01 12:00:00'',
               Some ''Warning: [minor] OtherImageStart''),
          [''IMG.jpg'', ''IMG.HEIC.json''])"
  by code_simp

subsection \<open>The command\<close>

lemma zero_number_falsy: "zero_number c \<Longrightarrow> \<not> truthy c"
  by (induction c rule: zero_number.induct) auto

lemma gps_flags_obj:
  assumes "gps_flags fr (JObj kvs) = Inr g"
  shows "case coordinates (chosen_geo kvs) of
           Some (lat, lon) \<Rightarrow>
             \<exists>slat slon. py_str fr lat = Inr slat \<and> py_str fr lon = Inr slon
               \<and> g = [''-GPSLatitude='' @ slat, ''-GPSLongitude='' @ slon]
         | None \<Rightarrow> g = []"
proof (cases "truthy (chosen_geo kvs)")
  case False
  then have "coordinates (chosen_geo kvs) = None"
    by (cases "chosen_geo kvs") (auto simp add: coordinates_def)
  moreover have "g = []"
    using assms False
    by (auto simp add: gps_flags_def chosen_geo_def Let_def split: option.splits if_splits)
  ultimately show ?thesis by simp
next
  case True
  have eq: "gps_flags fr (JObj kvs) =
      and_then (py_get (chosen_geo kvs) ''latitude'') (\<lambda>lat.
      and_then (py_get (chosen_geo kvs) ''longitude'') (\<lambda>lon.
        if truthy lat \<and> truthy lon
        then and_then (py_str fr lat) (\<lambda>slat.
             and_then (py_str fr lon) (\<lambda>slon.
               Inr [''-GPSLatitude='' @ slat, ''-GPSLongitude='' @ slon]))
        else Inr []))"
    using True
    by (auto simp add: gps_flags_def chosen_geo_def Let_def split: option.splits if_splits)
  obtain fs where fs: "chosen_geo kvs = JObj fs"
    using assms eq by (cases "chosen_geo kvs") (auto simp add: and_then_def)
  show ?thesis
    using assms unfolding eq fs
    by (auto simp add: coordinates_def and_then_def split: option.splits sum.splits if_splits)
qed

lemma description_flag_no_gps:
  "description_flag fr j = Inr ds \<Longrightarrow> filter (\<lambda>a. startswith a ''-GPS'') ds = []"
  by (auto simp add: description_flag_def and_then_def split: sum.splits if_splits)

lemma gps_flags_present:
  assumes "coordinates (chosen_geo kvs) = Some (lat, lon)"
    and "py_str fr lat = Inr slat" and "py_str fr lon = Inr slon"
  shows "gps_flags fr (JObj kvs) = Inr [''-GPSLatitude='' @ slat, ''-GPSLongitude='' @ slon]"
proof -
  obtain fs where fs: "chosen_geo kvs = JObj fs"
    and la: "map_of fs ''latitude'' = Some lat" and lo: "map_of fs ''longitude'' = Some lon"
    and tr: "truthy lat" "truthy lon"
    using assms(1)
    by (auto simp add: coordinates_def split: json.splits option.splits if_splits)
  have ne: "truthy (chosen_geo kvs)"
    using fs la by (cases fs) auto
  have g: "and_then (py_get (JObj kvs) ''geoDataExif'') (\<lambda>g1.
             if truthy g1 then Inr g1 else py_get (JObj kvs) ''geoData'') = Inr (JObj fs)"
    using fs ne by (auto simp add: chosen_geo_def Let_def split: option.splits if_splits)
  have "gps_flags fr (JObj kvs) =
      and_then (and_then (py_get (JObj kvs) ''geoDataExif'') (\<lambda>g1.
             if truthy g1 then Inr g1 else py_get (JObj kvs) ''geoData'')) (\<lambda>geo.
       if truthy geo
       then and_then (py_get geo ''latitude'') (\<lambda>lat.
            and_then (py_get geo ''longitude'') (\<lambda>lon.
              if truthy lat \<and> truthy lon
              then and_then (py_str fr lat) (\<lambda>slat.
                   and_then (py_str fr lon) (\<lambda>slon.
                     Inr [''-GPSLatitude='' @ slat, ''-GPSLongitude='' @ slon]))
              else Inr []))
       else Inr [])"
    by (simp add: gps_flags_def and_then_def split: sum.splits)
  then show ?thesis
    using ne la lo tr assms(2,3) unfolding g fs by simp
qed

lemma gps_flags_absent:
  assumes "coordinates (chosen_geo kvs) = None"
    and "\<not> truthy (chosen_geo kvs) \<or> (\<exists>fs. chosen_geo kvs = JObj fs)"
  shows "gps_flags fr (JObj kvs) = Inr []"
proof -
  have g: "and_then (py_get (JObj kvs) ''geoDataExif'') (\<lambda>g1.
             if truthy g1 then Inr g1 else py_get (JObj kvs) ''geoData'') = Inr (chosen_geo kvs)"
    by (auto simp add: chosen_geo_def Let_def split: option.splits if_splits)
  have e: "gps_flags fr (JObj kvs) =
      and_then (and_then (py_get (JObj kvs) ''geoDataExif'') (\<lambda>g1.
             if truthy g1 then Inr g1 else py_get (JObj kvs) ''geoData'')) (\<lambda>geo.
       if truthy geo
       then and_then (py_get geo ''latitude'') (\<lambda>lat.
            and_then (py_get geo ''longitude'') (\<lambda>lon.
              if truthy lat \<and> truthy lon
              then and_then (py_str fr lat) (\<lambda>slat.
                   and_then (py_str fr lon) (\<lambda>slon.
                     Inr [''-GPSLatitude='' @ slat, ''-GPSLongitude='' @ slon]))
              else Inr []))
       else Inr [])"
    by (simp add: gps_flags_def and_then_def split: sum.splits)
  show ?thesis
  proof (cases "truthy (chosen_geo kvs)")
    case False
    then show ?thesis unfolding e g by simp
  next
    case True
    then obtain fs where fs: "chosen_geo kvs = JObj fs"
      using assms(2) by blast
    show ?thesis
      using assms(1) True unfolding e g fs
      by (auto simp add: coordinates_def split: option.splits if_splits)
  qed
qed

text \<open>
  C8. The command holds the two GPS flags exactly when the geolocation object of the
  sidecar (\<open>geoDataExif\<close> in preference to \<open>geoData\<close>) has latitude and longitude both
  present and truthy. Whenever a command is built, its GPS flags are those two, latitude
  first, or none. With both coordinates present and truthy the command is built with the
  two flags after the date flags; with a coordinate absent or falsy it is built without
  them. A coordinate equal to zero leaves the command without any GPS flag.
\<close>

theorem gps_flags_exactly_when_both_truthy:
  "(\<forall>cmd. build_cmd fr date_str json_data file_path = Inr cmd \<longrightarrow>
      (case sidecar_coordinates json_data of
         Some (lat, lon) \<Rightarrow>
           \<exists>slat slon. py_str fr lat = Inr slat \<and> py_str fr lon = Inr slon
             \<and> gps_args cmd = [''-GPSLatitude='' @ slat, ''-GPSLongitude='' @ slon]
       | None \<Rightarrow> gps_args cmd = []))
   \<and> (\<forall>lat lon slat slon ds.
         sidecar_coordinates json_data = Some (lat, lon)
         \<and> py_str fr lat = Inr slat \<and> py_str fr lon = Inr slon
         \<and> description_flag fr json_data = Inr ds \<longrightarrow>
         build_cmd fr date_str json_data file_path
           = Inr ([''exiftool'', ''-overwrite_original'', ''-ignoreMinorErrors'',
                   ''-DateTimeOriginal='' @ date_str, ''-CreateDate='' @ date_str,
                   ''-ModifyDate='' @ date_str, ''-FileModifyDate='' @ date_str,
                   ''-GPSLatitude='' @ slat, ''-GPSLongitude='' @ slon]
                  @ ds @ [path_str file_path]))
   \<and> (\<forall>kvs ds.
         json_data = JObj kvs \<and> kvs \<noteq> [] \<and> coordinates (chosen_geo kvs) = None
         \<and> (\<not> truthy (chosen_geo kvs) \<or> (\<exists>fs. chosen_geo kvs = JObj fs))
         \<and> description_flag fr json_data = Inr ds \<longrightarrow>
         build_cmd fr date_str json_data file_path
           = Inr ([''exiftool'', ''-overwrite_original'', ''-ignoreMinorErrors'',
                   ''-DateTimeOriginal='' @ date_str, ''-CreateDate='' @ date_str,
                   ''-ModifyDate='' @ date_str, ''-FileModifyDate='' @ date_str]
                  @ ds @ [path_str file_path]))
   \<and> (\<forall>cmd kvs fs c.
         build_cmd fr date_str json_data file_path = Inr cmd
         \<and> json_data = JObj kvs \<and> chosen_geo kvs = JObj fs
         \<and> (map_of fs ''latitude'' = Some c \<or> map_of fs ''longitude'' = Some c)
         \<and> zero_number c \<longrightarrow> gps_args cmd = [])"
proof -
  have main: "case sidecar_coordinates json_data of
            Some (lat, lon) \<Rightarrow>
              \<exists>slat slon. py_str fr lat = Inr slat \<and> py_str fr lon = Inr slon
                \<and> gps_args cmd = [''-GPSLatitude='' @ slat, ''-GPSLongitude='' @ slon]
          | None \<Rightarrow> gps_args cmd = []"
    if b: "build_cmd fr date_str json_data file_path = Inr cmd" for cmd
  proof (cases "truthy json_data")
    case False
    then have "sidecar_coordinates json_data = None"
      by (cases json_data) (auto simp add: sidecar_coordinates_def chosen_geo_def coordinates_def)
    moreover have "gps_args cmd = []"
      using b False
      by (auto simp add: build_cmd_def gps_args_def UPDATE_FILE_TIMESTAMP_def)
    ultimately show ?thesis by simp
  next
    case True
    from b True obtain g ds where g: "gps_flags fr json_data = Inr g"
      and ds: "description_flag fr json_data = Inr ds"
      and cmd: "cmd = [''exiftool'', ''-overwrite_original'', ''-ignoreMinorErrors'',
                 ''-DateTimeOriginal='' @ date_str, ''-CreateDate='' @ date_str,
                 ''-ModifyDate='' @ date_str, ''-FileModifyDate='' @ date_str]
                 @ (g @ ds) @ [path_str file_path]"
      by (auto simp add: build_cmd_def UPDATE_FILE_TIMESTAMP_def and_then_def split: sum.splits)
    from g obtain kvs where kvs: "json_data = JObj kvs"
      by (cases json_data) (auto simp add: gps_flags_def)
    have gg: "gps_args cmd = filter (\<lambda>a. startswith a ''-GPS'') g"
      using description_flag_no_gps [OF ds]
      by (simp add: cmd gps_args_def butlast_append)
    have "filter (\<lambda>a. startswith a ''-GPS'') g = g"
      using gps_flags_obj [OF g [unfolded kvs]]
      by (auto split: option.splits)
    with gg have "gps_args cmd = g" by simp
    then show ?thesis
      using gps_flags_obj [OF g [unfolded kvs]]
      by (auto simp add: kvs sidecar_coordinates_def split: option.splits)
  qed
  have built: "build_cmd fr date_str json_data file_path
           = Inr ([''exiftool'', ''-overwrite_original'', ''-ignoreMinorErrors'',
                   ''-DateTimeOriginal='' @ date_str, ''-CreateDate='' @ date_str,
                   ''-ModifyDate='' @ date_str, ''-FileModifyDate='' @ date_str,
                   ''-GPSLatitude='' @ slat, ''-GPSLongitude='' @ slon]
                  @ ds @ [path_str file_path])"
    if sc: "sidecar_coordinates json_data = Some (lat, lon)"
      and ps: "py_str fr lat = Inr slat" "py_str fr lon = Inr slon"
      and df: "description_flag fr json_data = Inr ds"
    for lat lon slat slon ds
  proof -
    obtain kvs where kvs: "json_data = JObj kvs"
      and c: "coordinates (chosen_geo kvs) = Some (lat, lon)"
      using sc by (auto simp add: sidecar_coordinates_def split: json.splits)
    have "kvs \<noteq> []"
      using c by (auto simp add: chosen_geo_def coordinates_def)
    then have tr: "truthy json_data"
      by (simp add: kvs)
    have g: "gps_flags fr json_data
               = Inr [''-GPSLatitude='' @ slat, ''-GPSLongitude='' @ slon]"
      unfolding kvs using c ps by (rule gps_flags_present)
    show ?thesis
      using tr g df by (simp add: build_cmd_def UPDATE_FILE_TIMESTAMP_def)
  qed
  have plain: "build_cmd fr date_str json_data file_path
           = Inr ([''exiftool'', ''-overwrite_original'', ''-ignoreMinorErrors'',
                   ''-DateTimeOriginal='' @ date_str, ''-CreateDate='' @ date_str,
                   ''-ModifyDate='' @ date_str, ''-FileModifyDate='' @ date_str]
                  @ ds @ [path_str file_path])"
    if "json_data = JObj kvs" "kvs \<noteq> []" "coordinates (chosen_geo kvs) = None"
      "\<not> truthy (chosen_geo kvs) \<or> (\<exists>fs. chosen_geo kvs = JObj fs)"
      "description_flag fr json_data = Inr ds"
    for kvs ds
  proof -
    have tr: "truthy json_data"
      using that(1,2) by simp
    have g: "gps_flags fr json_data = Inr []"
      unfolding that(1) using that(3,4) by (rule gps_flags_absent)
    show ?thesis
      using tr g that(5) by (simp add: build_cmd_def UPDATE_FILE_TIMESTAMP_def)
  qed
  have zero: "gps_args cmd = []"
    if "build_cmd fr date_str json_data file_path = Inr cmd"
      "json_data = JObj kvs" "chosen_geo kvs = JObj fs"
      "map_of fs ''latitude'' = Some c \<or> map_of fs ''longitude'' = Some c" "zero_number c"
    for cmd kvs fs c
  proof -
    have "coordinates (JObj fs) = None"
      using that(4,5) zero_number_falsy [of c]
      by (auto simp add: coordinates_def split: option.splits)
    then show ?thesis
      using main [OF that(1)] that(2,3) by (simp add: sidecar_coordinates_def)
  qed
  show ?thesis
    using main built plain zero by blast
qed

theorem gps_flags_exactly_when_both_truthy_witness:
  "build_cmd (\<lambda>x. []) ''2019:01:01 12:00:00''
     (JObj [(''geoDataExif'', JObj [(''latitude'', JInt 48), (''longitude'', JInt 2)]),
            (''geoData'', JObj [(''latitude'', JInt 1), (''longitude'', JInt 1)])])
     \<lparr>anchor = [], parts = [''Photos 2019'', ''IMG.jpg'']\<rparr>
     = Inr [''exiftool'', ''-overwrite_original'', ''-ignoreMinorErrors'',
            ''-DateTimeOriginal=2019:01:01 12:00:00'', ''-CreateDate=2019:01:01 12:00:00'',
            ''-ModifyDate=2019:01:01 12:00:00'', ''-FileModifyDate=2019:01:01 12:00:00'',
            ''-GPSLatitude=48'', ''-GPSLongitude=2'', ''Photos 2019/IMG.jpg'']
   \<and> gps_args
         [''exiftool'', ''-overwrite_original'', ''-ignoreMinorErrors'',
          ''-DateTimeOriginal=2019:01:01 12:00:00'', ''-CreateDate=2019:01:01 12:00:00'',
          ''-ModifyDate=2019:01:01 12:00:00'', ''-FileModifyDate=2019:01:01 12:00:00'',
          ''-GPSLatitude=48'', ''-GPSLongitude=2'', ''Photos 2019/IMG.jpg'']
       = [''-GPSLatitude=48'', ''-GPSLongitude=2'']
   \<and> build_cmd (\<lambda>x. []) ''2019:01:01 12:00:00''
         (JObj [(''geoDataExif'', JObj [(''latitude'', JFloat (FNum 0 0)), (''longitude'', JInt 2)]),
                (''geoData'', JObj [(''latitude'', JInt 48), (''longitude'', JInt 2)])])
         \<lparr>anchor = [], parts = [''Photos 2019'', ''IMG.jpg'']\<rparr>
       = Inr [''exiftool'', ''-overwrite_original'', ''-ignoreMinorErrors'',
              ''-DateTimeOriginal=2019:01:01 12:00:00'', ''-CreateDate=2019:01:01 12:00:00'',
              ''-ModifyDate=2019:01:01 12:00:00'', ''-FileModifyDate=2019:01:01 12:00:00'',
              ''Photos 2019/IMG.jpg'']
   \<and> gps_args [''exiftool'', ''-overwrite_original'', ''-ignoreMinorErrors'',
              ''-DateTimeOriginal=2019:01:01 12:00:00'', ''-CreateDate=2019:01:01 12:00:00'',
              ''-ModifyDate=2019:01:01 12:00:00'', ''-FileModifyDate=2019:01:01 12:00:00'',
              ''Photos 2019/IMG.jpg''] = []"
proof -
  let ?p = "\<lparr>anchor = [], parts = [''Photos 2019'', ''IMG.jpg'']\<rparr>"
  let ?d = "''2019:01:01 12:00:00''"
  let ?k1 = "[(''geoDataExif'', JObj [(''latitude'', JInt 48), (''longitude'', JInt 2)]),
              (''geoData'', JObj [(''latitude'', JInt 1), (''longitude'', JInt 1)])]"
  let ?fs = "[(''latitude'', JFloat (FNum 0 0)), (''longitude'', JInt 2)]"
  let ?k2 = "[(''geoDataExif'', JObj ?fs),
              (''geoData'', JObj [(''latitude'', JInt 48), (''longitude'', JInt 2)])]"
  let ?c1 = "[''exiftool'', ''-overwrite_original'', ''-ignoreMinorErrors'',
      ''-DateTimeOriginal=2019:01:01 12:00:00'', ''-CreateDate=2019:01:01 12:00:00'',
      ''-ModifyDate=2019:01:01 12:00:00'', ''-FileModifyDate=2019:01:01 12:00:00'',
      ''-GPSLatitude=48'', ''-GPSLongitude=2'', ''Photos 2019/IMG.jpg'']"
  let ?c2 = "[''exiftool'', ''-overwrite_original'', ''-ignoreMinorErrors'',
      ''-DateTimeOriginal=2019:01:01 12:00:00'', ''-CreateDate=2019:01:01 12:00:00'',
      ''-ModifyDate=2019:01:01 12:00:00'', ''-FileModifyDate=2019:01:01 12:00:00'',
      ''Photos 2019/IMG.jpg'']"
  note T1 = gps_flags_exactly_when_both_truthy [of "\<lambda>x. []" ?d "JObj ?k1" ?p]
  note T2 = gps_flags_exactly_when_both_truthy [of "\<lambda>x. []" ?d "JObj ?k2" ?p]
  have ps: "path_str ?p = ''Photos 2019/IMG.jpg''"
    by code_simp
  have s1: "sidecar_coordinates (JObj ?k1) = Some (JInt 48, JInt 2)"
    by code_simp
  have t1: "py_str (\<lambda>x. []) (JInt 48) = Inr ''48''" "py_str (\<lambda>x. []) (JInt 2) = Inr ''2''"
    by code_simp+
  have f1: "description_flag (\<lambda>x. []) (JObj ?k1) = Inr []"
    by code_simp
  have p1: "sidecar_coordinates (JObj ?k1) = Some (JInt 48, JInt 2)
         \<and> py_str (\<lambda>x. []) (JInt 48) = Inr ''48'' \<and> py_str (\<lambda>x. []) (JInt 2) = Inr ''2''
         \<and> description_flag (\<lambda>x. []) (JObj ?k1) = Inr []"
    using s1 t1 f1 by (intro conjI)
  have b1: "build_cmd (\<lambda>x. []) ?d (JObj ?k1) ?p = Inr ?c1"
    using T1 [THEN conjunct2, THEN conjunct1, rule_format, OF p1] by (simp add: ps)
  have i1: "int_str 48 = Inr ''48''" "int_str 2 = Inr ''2''"
    by code_simp+
  have r1: "gps_args ?c1 = [''-GPSLatitude=48'', ''-GPSLongitude=2'']"
    using T1 [THEN conjunct1, rule_format, OF b1] by (simp add: s1 i1)
  have g2: "chosen_geo ?k2 = JObj ?fs"
    by code_simp
  have n2: "coordinates (chosen_geo ?k2) = None"
    by code_simp
  have f2: "description_flag (\<lambda>x. []) (JObj ?k2) = Inr []"
    by code_simp
  have p2: "JObj ?k2 = JObj ?k2 \<and> ?k2 \<noteq> [] \<and> coordinates (chosen_geo ?k2) = None
         \<and> (\<not> truthy (chosen_geo ?k2) \<or> (\<exists>fs. chosen_geo ?k2 = JObj fs))
         \<and> description_flag (\<lambda>x. []) (JObj ?k2) = Inr []"
    using n2 f2 g2 by (intro conjI) simp_all
  have b2: "build_cmd (\<lambda>x. []) ?d (JObj ?k2) ?p = Inr ?c2"
    using T2 [THEN conjunct2, THEN conjunct2, THEN conjunct1, rule_format, OF p2]
    by (simp add: ps)
  have q2: "build_cmd (\<lambda>x. []) ?d (JObj ?k2) ?p = Inr ?c2
         \<and> JObj ?k2 = JObj ?k2 \<and> chosen_geo ?k2 = JObj ?fs
         \<and> (map_of ?fs ''latitude'' = Some (JFloat (FNum 0 0))
             \<or> map_of ?fs ''longitude'' = Some (JFloat (FNum 0 0)))
         \<and> zero_number (JFloat (FNum 0 0))"
    using b2 g2 by (intro conjI) simp_all
  have r2: "gps_args ?c2 = []"
    using T2 [THEN conjunct2, THEN conjunct2, THEN conjunct2, rule_format, OF q2] .
  show ?thesis
    using b1 r1 b2 r2 by (intro conjI)
qed

subsection \<open>Exceptions in the sidecar block\<close>

lemma map_of_Some_truthy: "map_of kvs k = Some v \<Longrightarrow> truthy (JObj kvs)"
  by (cases kvs) auto

text \<open>
  An exception raised while the formatted capture time is parsed is caught: the parser
  gives \<open>None\<close>, and with the timestamp absent or falsy the block ends without a date, so
  that the file name and the folder are tried.
\<close>

lemma unparsable_formatted_falls_through:
  assumes "map_of kvs ''photoTakenTime'' = Some (JObj pt)"
    and "map_of pt ''formatted'' = Some f" and "truthy f"
    and "parse_google_formatted pad f = None"
    and "map_of pt ''timestamp'' = None \<or> (\<exists>t. map_of pt ''timestamp'' = Some t \<and> \<not> truthy t)"
  shows "taken_time_date pad (JObj kvs) = Inr None"
    and "resolve_date pad (JObj kvs) file_path
           = Inr (case extract_date_from_filename file_path of
                    Some d \<Rightarrow> Some d | None \<Rightarrow> extract_date_from_folder file_path)"
proof -
  have tr: "truthy (JObj kvs)"
    using assms(1) by (rule map_of_Some_truthy)
  show t: "taken_time_date pad (JObj kvs) = Inr None"
    using assms tr by (auto simp add: taken_time_date_def split: option.splits)
  show "resolve_date pad (JObj kvs) file_path
           = Inr (case extract_date_from_filename file_path of
                    Some d \<Rightarrow> Some d | None \<Rightarrow> extract_date_from_folder file_path)"
    by (simp add: resolve_date_def t split: option.splits)
qed

text \<open>
  The conversion of the timestamp is not guarded: whatever the formatted field holds, a
  timestamp that is truthy and that \<open>int\<close> rejects makes \<open>resolve_date\<close> raise.
\<close>

lemma unparsable_timestamp_raises:
  assumes "map_of kvs ''photoTakenTime'' = Some (JObj pt)"
    and "map_of pt ''formatted'' = None
         \<or> (\<exists>f. map_of pt ''formatted'' = Some f
                \<and> (\<not> truthy f \<or> parse_google_formatted pad f = None))"
    and "map_of pt ''timestamp'' = Some t" and "truthy t" and "py_int t = Inl e"
  shows "resolve_date pad (JObj kvs) file_path = Inl e"
proof -
  have tr: "truthy (JObj kvs)"
    using assms(1) by (rule map_of_Some_truthy)
  have "taken_time_date pad (JObj kvs) = Inl e"
    using assms tr by (auto simp add: taken_time_date_def split: option.splits)
  then show ?thesis
    by (simp add: resolve_date_def)
qed

text \<open>
  C2. Every parse exception of the sidecar block, that of a timestamp which is no
  integer included, should be a soft failure after which \<open>resolve_date\<close> goes on to the
  file name. The sidecar below has the timestamp \<open>abc\<close> and the file name holds a time
  stamp: \<open>resolve_date\<close> raises \<open>ValueError\<close> instead of returning the date of the file
  name.
\<close>

theorem bad_timestamp_raises:
  "resolve_date True (JObj [(''photoTakenTime'', JObj [(''timestamp'', JStr ''abc'')])])
      \<lparr>anchor = [], parts = [''Album'', ''IMG_20230126_203929.jpg'']\<rparr> = Inl ValueError
   \<and> extract_date_from_filename \<lparr>anchor = [], parts = [''Album'', ''IMG_20230126_203929.jpg'']\<rparr>
       = Some ''2023:01:26 20:39:29''"
  by code_simp

subsection \<open>Sidecar matching\<close>

lemma startswith_iff: "startswith s p \<longleftrightarrow> (\<exists>r. s = p @ r)"
  by (induction s p rule: startswith.induct) auto

lemma endswith_iff: "endswith s p \<longleftrightarrow> (\<exists>r. s = r @ p)"
proof -
  have "endswith s p \<longleftrightarrow> (\<exists>r. rev s = rev p @ r)"
    by (simp add: endswith_def startswith_iff)
  also have "\<dots> \<longleftrightarrow> (\<exists>r. s = r @ p)"
    by (metis rev_append rev_rev_ident)
  finally show ?thesis .
qed

lemma first_match_find:
  "first_match b (filter Q xs) = List.find (\<lambda>n. Q n \<and> startswith (lower n) b) xs"
  by (induction xs) auto

text \<open>
  What \<open>find_matching_json\<close> computes: the first name of the listing that ends in
  \<open>.json\<close> and starts, without regard to case, with the name of the media file after
  \<open>strip\<close> has been applied to that name.
\<close>

lemma find_matching_json_first_in_listing:
  "find_matching_json listing file_path
     = map_option (path_child (path_parent file_path))
         (List.find (named_sidecar (strip (path_name file_path))) listing)"
  unfolding find_matching_json_def glob_json_def Let_def named_sidecar_def first_match_find
  by (rule refl)

text \<open>
  C3. \<open>find_matching_json\<close> should return the first JSON file of the directory whose
  name starts, without regard to case, with the full name of the media file. The
  function strips white space from the name of the media file and not from the names it
  compares with: for the file below, whose name starts with a space, the sidecar that
  starts with that full name is not found.
\<close>

theorem leading_space_sidecar_not_found:
  "named_sidecar (path_name \<lparr>anchor = [], parts = [''Album'', '' a.jpg'']\<rparr>) '' a.jpg.json''
   \<and> find_matching_json ['' a.jpg.json''] \<lparr>anchor = [], parts = [''Album'', '' a.jpg'']\<rparr> = None"
  by code_simp

text \<open>
  In the other direction a file whose name ends with a space is given a JSON file that
  does not start with its name.
\<close>

lemma trailing_space_matches_other_name:
  "\<not> named_sidecar (path_name \<lparr>anchor = [], parts = [''Album'', ''a.jpg '']\<rparr>) ''a.jpg.json''
   \<and> find_matching_json [''a.jpg.json''] \<lparr>anchor = [], parts = [''Album'', ''a.jpg '']\<rparr>
       = Some \<lparr>anchor = [], parts = [''Album'', ''a.jpg.json'']\<rparr>"
  by code_simp

subsection \<open>The time stamp in the file name\<close>












text \<open>
  The sidecar block gives no date, and raises nothing, when there is no sidecar data or
  the data is an object without the key \<open>photoTakenTime\<close>.
\<close>

lemma taken_time_date_absent:
  "\<not> truthy j \<Longrightarrow> taken_time_date pad j = Inr None"
  "map_of kvs ''photoTakenTime'' = None \<Longrightarrow> taken_time_date pad (JObj kvs) = Inr None"
  by (simp_all add: taken_time_date_def)




subsection \<open>The calendar\<close>

text \<open>
  The conversion of a day number to a date is checked against the count of days in the
  other direction: the date it gives is a date of the calendar, and its day number is the
  one converted. Two dates with the same day number are the same date, and so the seconds
  since the epoch determine the date and the time of day.
\<close>

lemma month_of_day:
  fixes r :: int and leap :: bool
  assumes "0 \<le> r" "r \<le> 364"
    and "m0 = nat ((r + 50) div 32)"
    and "m = (if r < days_before_month leap m0 then m0 - 1 else m0)"
  shows "1 \<le> m \<and> m \<le> 12 \<and> days_before_month leap m \<le> r
         \<and> r - days_before_month leap m + 1
             \<le> (if m = 2 then (if leap then 29 else 28)
                 else if m = 4 \<or> m = 6 \<or> m = 9 \<or> m = 11 then 30 else 31)"
proof -
  define q where "q = (r + 50) div 32"
  have qr: "32 * q \<le> r + 50" "r + 50 < 32 * q + 32"
    using div_mult_mod_eq [of "r + 50" 32] pos_mod_sign [of 32 "r + 50"]
      pos_mod_bound [of 32 "r + 50"]
    unfolding q_def by linarith+
  have qb: "1 \<le> q" "q \<le> 12"
    using assms(1,2) qr by linarith+
  have m0: "m0 = nat q"
    by (simp add: assms(3) q_def)
  have "q = 1 \<or> q = 2 \<or> q = 3 \<or> q = 4 \<or> q = 5 \<or> q = 6 \<or> q = 7 \<or> q = 8 \<or> q = 9
          \<or> q = 10 \<or> q = 11 \<or> q = 12"
    using qb by arith
  then show ?thesis
    using qr assms(1,2) unfolding assms(4) m0
    by (elim disjE) (simp_all add: days_before_month_def)
qed

lemma div_mod_split:
  fixes a b c :: int
  assumes "0 \<le> b" "b < c"
  shows "(c * a + b) div c = a" and "(c * a + b) mod c = b"
  using assms by simp_all

lemma days_before_year_split:
  fixes a b c e :: int
  assumes "0 \<le> b" "b \<le> 3" "0 \<le> c" "c \<le> 24" "0 \<le> e" "e \<le> 3"
  shows "days_before_year (400 * a + 100 * b + 4 * c + e + 1)
           = 146097 * a + 36524 * b + 1461 * c + 365 * e"
proof -
  have d4: "(400 * a + 100 * b + 4 * c + e) div 4 = 100 * a + 25 * b + c"
    using div_mod_split(1) [of e 4 "100 * a + 25 * b + c"] assms by (simp add: algebra_simps)
  have d100: "(400 * a + 100 * b + 4 * c + e) div 100 = 4 * a + b"
    using div_mod_split(1) [of "4 * c + e" 100 "4 * a + b"] assms by (simp add: algebra_simps)
  have d400: "(400 * a + 100 * b + 4 * c + e) div 400 = a"
    using div_mod_split(1) [of "100 * b + 4 * c + e" 400 a] assms by (simp add: algebra_simps)
  show ?thesis
    by (simp add: days_before_year_def d4 d100 d400)
qed

lemma mod_zero_iff_top:
  fixes v k :: int
  assumes "0 < v" "v \<le> k"
  shows "v mod k = 0 \<longleftrightarrow> v = k"
proof (cases "v = k")
  case True
  then show ?thesis by simp
next
  case False
  then have "v mod k = v" using assms by simp
  then show ?thesis using assms False by simp
qed

lemma is_leap_split:
  fixes a b c e :: int
  assumes "0 \<le> b" "b \<le> 3" "0 \<le> c" "c \<le> 24" "0 \<le> e" "e \<le> 3"
  shows "is_leap (400 * a + 100 * b + 4 * c + e + 1) \<longleftrightarrow> (e = 3 \<and> (c \<noteq> 24 \<or> b = 3))"
proof -
  let ?y = "400 * a + 100 * b + 4 * c + e + 1"
  have "?y = 4 * (100 * a + 25 * b + c) + (e + 1)" by simp
  then have "?y mod 4 = (e + 1) mod 4" by (simp only: mod_mult_self4)
  then have m4: "?y mod 4 = 0 \<longleftrightarrow> e = 3"
    using mod_zero_iff_top [of "e + 1" 4] assms by simp
  have "?y = 100 * (4 * a + b) + (4 * c + e + 1)" by simp
  then have "?y mod 100 = (4 * c + e + 1) mod 100" by (simp only: mod_mult_self4)
  then have m100: "?y mod 100 = 0 \<longleftrightarrow> 4 * c + e + 1 = 100"
    using mod_zero_iff_top [of "4 * c + e + 1" 100] assms by simp
  have "?y = 400 * a + (100 * b + 4 * c + e + 1)" by simp
  then have "?y mod 400 = (100 * b + 4 * c + e + 1) mod 400" by (simp only: mod_mult_self4)
  then have m400: "?y mod 400 = 0 \<longleftrightarrow> 100 * b + 4 * c + e + 1 = 400"
    using mod_zero_iff_top [of "100 * b + 4 * c + e + 1" 400] assms by simp
  show ?thesis
    unfolding is_leap_def m4 m100 m400 using assms by arith
qed

lemma ord2ymd_correct:
  assumes "1 \<le> n0" and "ord2ymd n0 = (y, m, d)"
  shows "1 \<le> y \<and> 1 \<le> m \<and> m \<le> 12 \<and> 1 \<le> d \<and> d \<le> days_in_month y m \<and> ymd2ord y m d = n0"
proof -
  define n where "n = n0 - 1"
  define q400 where "q400 = n div 146097"
  define r400 where "r400 = n mod 146097"
  define q100 where "q100 = r400 div 36524"
  define r100 where "r100 = r400 mod 36524"
  define q4 where "q4 = r100 div 1461"
  define r4 where "r4 = r100 mod 1461"
  define q1 where "q1 = r4 div 365"
  define r1 where "r1 = r4 mod 365"
  have n: "0 \<le> n" "n0 = n + 1"
    using assms(1) by (simp_all add: n_def)
  have q400: "0 \<le> q400"
    using n(1) by (simp add: q400_def pos_imp_zdiv_nonneg_iff)
  have e1: "n = 146097 * q400 + r400" and b1: "0 \<le> r400" "r400 < 146097"
    by (simp_all add: q400_def r400_def)
  have e2: "r400 = 36524 * q100 + r100" and b2: "0 \<le> r100" "r100 < 36524"
    by (simp_all add: q100_def r100_def)
  have e3: "r100 = 1461 * q4 + r4" and b3: "0 \<le> r4" "r4 < 1461"
    by (simp_all add: q4_def r4_def)
  have e4: "r4 = 365 * q1 + r1" and b4: "0 \<le> r1" "r1 < 365"
    by (simp_all add: q1_def r1_def)
  have q100: "0 \<le> q100" "q100 \<le> 4"
    using e2 b1 b2 by arith+
  have q4: "0 \<le> q4" "q4 \<le> 24"
    using e3 b2 b3 by arith+
  have q1: "0 \<le> q1" "q1 \<le> 4"
    using e4 b3 b4 by arith+
  have ymd: "(y, m, d) =
      (if q1 = 4 \<or> q100 = 4 then (400 * q400 + 100 * q100 + 4 * q4 + q1, 12, 31)
       else
         let leap = (q1 = 3 \<and> (q4 \<noteq> 24 \<or> q100 = 3));
             m0 = nat ((r1 + 50) div 32);
             m1 = (if r1 < days_before_month leap m0 then m0 - 1 else m0)
         in (400 * q400 + 100 * q100 + 4 * q4 + q1 + 1, int m1,
             r1 - days_before_month leap m1 + 1))"
    unfolding assms(2) [symmetric] ord2ymd_def Let_def
      r1_def q1_def r4_def q4_def r100_def q100_def r400_def q400_def n_def
    by simp
  show ?thesis
  proof (cases "q1 = 4 \<or> q100 = 4")
    case True
    then have res: "y = 400 * q400 + 100 * q100 + 4 * q4 + q1" "m = 12" "d = 31"
      using ymd by simp_all
    show ?thesis
    proof (cases "q100 = 4")
      case True
      then have "r100 = 0" using e2 b1 b2 by arith
      then have z: "q4 = 0" "q1 = 0" "r1 = 0"
        by (simp_all add: q4_def r4_def q1_def r1_def)
      have yy: "y = 400 * q400 + 100 * 3 + 4 * 24 + 3 + 1"
        using res(1) True z by simp
      have dby: "days_before_year y = 146097 * q400 + 36524 * 3 + 1461 * 24 + 365 * 3"
        unfolding yy by (rule days_before_year_split) simp_all
      have lp: "is_leap y"
        unfolding yy by (subst is_leap_split) simp_all
      have nn: "n = 146097 * q400 + 146096"
        using e1 e2 True \<open>r100 = 0\<close> by simp
      show ?thesis
        using q400 lp dby nn n(2) res(2,3) yy
        by (simp add: ymd2ord_def days_in_month_def days_before_month_def)
    next
      case False
      with True have q14: "q1 = 4" by simp
      have q100': "q100 \<le> 3" using False q100 by arith
      have r10: "r1 = 0" using e4 b3 b4 q14 by arith
      have q4': "q4 \<le> 23" using e3 e4 b2 q14 r10 by arith
      have yy: "y = 400 * q400 + 100 * q100 + 4 * q4 + 3 + 1"
        using res(1) q14 by simp
      have dby: "days_before_year y = 146097 * q400 + 36524 * q100 + 1461 * q4 + 365 * 3"
        unfolding yy using q100(1) q100' q4(1,2) by (intro days_before_year_split) simp_all
      have "is_leap y \<longleftrightarrow> (3 = (3::int) \<and> (q4 \<noteq> 24 \<or> q100 = 3))"
        unfolding yy using q100(1) q100' q4(1,2) by (intro is_leap_split) simp_all
      then have lp: "is_leap y" using q4' by simp
      have nn: "n = 146097 * q400 + 36524 * q100 + 1461 * q4 + 1460"
        using e1 e2 e3 e4 q14 r10 by simp
      show ?thesis
        using q400 q100(1) q4(1) lp dby nn n(2) res(2,3) yy
        by (simp add: ymd2ord_def days_in_month_def days_before_month_def)
    qed
  next
    case False
    then have q1': "q1 \<le> 3" and q100': "q100 \<le> 3"
      using q1 q100 by arith+
    define leap where "leap = (q1 = 3 \<and> (q4 \<noteq> 24 \<or> q100 = 3))"
    define m0 where "m0 = nat ((r1 + 50) div 32)"
    define m1 where "m1 = (if r1 < days_before_month leap m0 then m0 - 1 else m0)"
    have res: "y = 400 * q400 + 100 * q100 + 4 * q4 + q1 + 1" "m = int m1"
      "d = r1 - days_before_month leap m1 + 1"
      using ymd False by (simp_all add: Let_def leap_def m0_def m1_def)
    have dby: "days_before_year y = 146097 * q400 + 36524 * q100 + 1461 * q4 + 365 * q1"
      unfolding res(1) using q100(1) q100' q4 q1(1) q1' by (intro days_before_year_split)
    have lp: "is_leap y = leap"
      unfolding res(1) leap_def using q100(1) q100' q4 q1(1) q1' by (intro is_leap_split)
    have md: "1 \<le> m1 \<and> m1 \<le> 12 \<and> days_before_month leap m1 \<le> r1
         \<and> r1 - days_before_month leap m1 + 1
             \<le> (if m1 = 2 then (if leap then 29 else 28)
                 else if m1 = 4 \<or> m1 = 6 \<or> m1 = 9 \<or> m1 = 11 then 30 else 31)"
      using b4 by (intro month_of_day [OF _ _ m0_def m1_def]) simp_all
    have dim: "days_in_month y (int m1)
                 = (if m1 = 2 then (if leap then 29 else 28)
                    else if m1 = 4 \<or> m1 = 6 \<or> m1 = 9 \<or> m1 = 11 then 30 else 31)"
      by (simp add: days_in_month_def lp)
    have nn: "n = 146097 * q400 + 36524 * q100 + 1461 * q4 + 365 * q1 + r1"
      using e1 e2 e3 e4 by simp
    have o: "ymd2ord y m d = n0"
      by (simp add: ymd2ord_def dby lp res(2,3) nn n(2))
    have "1 \<le> y"
      using q400 q100(1) q4(1) q1(1) res(1) by simp
    then show ?thesis
      using md o unfolding dim res(2,3) by simp
  qed
qed

lemma days_before_year_10000:
  assumes "10000 \<le> y"
  shows "3652059 \<le> days_before_year y"
proof -
  define t where "t = y - 1"
  have t: "9999 \<le> t" using assms by (simp add: t_def)
  have a: "t - 3 \<le> 4 * (t div 4)"
    using div_mult_mod_eq [of t 4] pos_mod_bound [of 4 t] by linarith
  have b: "100 * (t div 100) \<le> t"
    using div_mult_mod_eq [of t 100] pos_mod_sign [of 100 t] by linarith
  have c: "t - 399 \<le> 400 * (t div 400)"
    using div_mult_mod_eq [of t 400] pos_mod_bound [of 400 t] by linarith
  have "3652059 \<le> 365 * t + t div 4 - t div 100 + t div 400"
    using t a b c by linarith
  then show ?thesis by (simp add: t_def days_before_year_def)
qed

lemma days_before_month_nonneg:
  assumes "m \<le> 12"
  shows "0 \<le> days_before_month leap m"
proof -
  let ?t = "[0, 0, 31, 59, 90, 120, 151, 181, 212, 243, 273, 304, 334] :: int list"
  have "?t ! m \<in> set ?t"
    by (rule nth_mem) (use assms in simp)
  then have "0 \<le> ?t ! m"
    by auto
  then show ?thesis
    by (simp add: days_before_month_def)
qed

lemma ord2ymd_year_max:
  assumes "1 \<le> n0" and "n0 \<le> 3652059" and "ord2ymd n0 = (y, m, d)"
  shows "y \<le> 9999"
proof (rule ccontr)
  assume "\<not> y \<le> 9999"
  then have "3652059 \<le> days_before_year y"
    by (intro days_before_year_10000) simp
  moreover have c: "1 \<le> m \<and> m \<le> 12 \<and> 1 \<le> d \<and> ymd2ord y m d = n0"
    using ord2ymd_correct [OF assms(1,3)] by simp
  moreover have "0 \<le> days_before_month (is_leap y) (nat m)"
  proof (rule days_before_month_nonneg)
    show "nat m \<le> 12" using c by arith
  qed
  ultimately show False
    using assms(2) by (simp add: ymd2ord_def)
qed

lemma utcfromtimestamp_Inr_iff:
  "(\<exists>dt. utcfromtimestamp n = Inr dt) \<longleftrightarrow> - 62135596800 \<le> n \<and> n \<le> 253402300799"
  by (auto simp add: utcfromtimestamp_def Let_def split: prod.splits)

lemma time_of_day_sum: "(t::int) div 3600 * 3600 + t mod 3600 div 60 * 60 + t mod 60 = t"
proof -
  have "t mod 60 = t mod 3600 mod 60"
    by (simp add: mod_mod_cancel)
  then have "t mod 3600 div 60 * 60 + t mod 60 = t mod 3600"
    by simp
  then show ?thesis
    using div_mult_mod_eq [of t 3600] by linarith
qed

lemma utcfromtimestamp_correct:
  assumes "utcfromtimestamp n = Inr dt"
  shows "valid_datetime dt \<and> timegm dt = n"
proof -
  have r: "- 62135596800 \<le> n" "n \<le> 253402300799"
    using assms utcfromtimestamp_Inr_iff [of n] by auto
  define n0 where "n0 = 719163 + n div 86400"
  define t where "t = n mod 86400"
  obtain y m d where o: "ord2ymd n0 = (y, m, d)"
    by (cases "ord2ymd n0") auto
  have dt: "dt = Datetime y m d (t div 3600) (t mod 3600 div 60) (t mod 60)"
    using assms r o by (simp add: utcfromtimestamp_def Let_def n0_def t_def)
  have n0: "1 \<le> n0" "n0 \<le> 3652059"
    using r unfolding n0_def by arith+
  have c: "1 \<le> y \<and> 1 \<le> m \<and> m \<le> 12 \<and> 1 \<le> d \<and> d \<le> days_in_month y m \<and> ymd2ord y m d = n0"
    using n0(1) o by (rule ord2ymd_correct)
  have ym: "y \<le> 9999"
    using n0 o by (rule ord2ymd_year_max)
  have t: "0 \<le> t" "t < 86400"
    by (simp_all add: t_def)
  have h: "0 \<le> t div 3600" "t div 3600 \<le> 23"
    using t by arith+
  have mi: "0 \<le> t mod 3600 div 60" "t mod 3600 div 60 \<le> 59"
    using t by arith+
  have s: "0 \<le> t mod 60" "t mod 60 \<le> 59"
    by simp_all
  have "n = 86400 * (n div 86400) + t"
    by (simp add: t_def)
  then have "timegm dt = n"
    using c time_of_day_sum [of t] by (simp add: dt timegm_def n0_def)
  then show ?thesis
    using c ym h mi s by (simp add: dt valid_datetime_def)
qed

lemma div_step:
  fixes y k :: int
  assumes "0 < k"
  shows "y div k - (y - 1) div k = (if y mod k = 0 then 1 else 0)"
proof -
  define q where "q = y div k"
  define r where "r = y mod k"
  have y: "y = k * q + r" and r: "0 \<le> r" "r < k"
    using assms by (simp_all add: q_def r_def)
  show ?thesis
  proof (cases "r = 0")
    case True
    have e: "y - 1 = k * (q - 1) + (k - 1)"
      using y True by (simp add: algebra_simps)
    have "(k * (q - 1) + (k - 1)) div k = q - 1"
      by (rule div_mod_split(1)) (use assms in simp_all)
    then have "(y - 1) div k = q - 1"
      by (simp only: e)
    then show ?thesis
      using True by (simp add: q_def r_def)
  next
    case False
    have e: "y - 1 = k * q + (r - 1)"
      using y by simp
    have "(k * q + (r - 1)) div k = q"
      by (rule div_mod_split(1)) (use r False in simp_all)
    then have "(y - 1) div k = q"
      by (simp only: e)
    then show ?thesis
      using False by (simp add: q_def r_def)
  qed
qed

lemma days_before_year_next:
  "days_before_year (y + 1) = days_before_year y + (if is_leap y then 366 else 365)"
proof -
  have m100: "y mod 4 = 0" if "y mod 100 = 0"
  proof -
    have "y mod 4 = y mod 100 mod 4" by (simp add: mod_mod_cancel)
    then show ?thesis using that by simp
  qed
  have m400: "y mod 100 = 0" if "y mod 400 = 0"
  proof -
    have "y mod 100 = y mod 400 mod 100" by (simp add: mod_mod_cancel)
    then show ?thesis using that by simp
  qed
  define s4 where "s4 = y div 4 - (y - 1) div 4"
  define s100 where "s100 = y div 100 - (y - 1) div 100"
  define s400 where "s400 = y div 400 - (y - 1) div 400"
  have d: "days_before_year (y + 1) = days_before_year y + 365 + s4 - s100 + s400"
    by (simp add: days_before_year_def s4_def s100_def s400_def)
  have s4: "s4 = (if y mod 4 = 0 then 1 else 0)"
    unfolding s4_def by (rule div_step) simp
  have s100: "s100 = (if y mod 100 = 0 then 1 else 0)"
    unfolding s100_def by (rule div_step) simp
  have s400: "s400 = (if y mod 400 = 0 then 1 else 0)"
    unfolding s400_def by (rule div_step) simp
  show ?thesis
  proof (cases "y mod 4 = 0")
    case False
    have a: "y mod 100 \<noteq> 0"
    proof
      assume "y mod 100 = 0"
      then have "y mod 4 = 0" by (rule m100)
      with False show False by simp
    qed
    have b: "y mod 400 \<noteq> 0"
    proof
      assume "y mod 400 = 0"
      then have "y mod 100 = 0" by (rule m400)
      with a show False by simp
    qed
    show ?thesis using False a b by (simp add: d s4 s100 s400 is_leap_def)
  next
    case True
    show ?thesis
    proof (cases "y mod 100 = 0")
      case False
      have "y mod 400 \<noteq> 0"
      proof
        assume "y mod 400 = 0"
        then have "y mod 100 = 0" by (rule m400)
        with False show False by simp
      qed
      then show ?thesis using True False by (simp add: d s4 s100 s400 is_leap_def)
    next
      case h: True
      show ?thesis using True h by (simp add: d s4 s100 s400 is_leap_def)
    qed
  qed
qed

lemma days_before_year_mono:
  assumes "y1 \<le> y2"
  shows "days_before_year y1 \<le> days_before_year y2"
  using assms
proof (induction y2 rule: int_ge_induct)
  case base
  show ?case by simp
next
  case (step i)
  have "days_before_year i \<le> days_before_year (i + 1)"
    by (simp only: days_before_year_next split: if_splits) simp
  then show ?case
    using step.IH by linarith
qed

lemma day_of_year_bounds:
  assumes "1 \<le> m" "m \<le> 12" "1 \<le> d" "d \<le> days_in_month y m"
  shows "1 \<le> days_before_month (is_leap y) (nat m) + d"
    and "days_before_month (is_leap y) (nat m) + d \<le> (if is_leap y then 366 else 365)"
proof -
  have c: "m = 1 \<or> m = 2 \<or> m = 3 \<or> m = 4 \<or> m = 5 \<or> m = 6 \<or> m = 7 \<or> m = 8 \<or> m = 9
          \<or> m = 10 \<or> m = 11 \<or> m = 12"
    using assms(1,2) by arith
  show "1 \<le> days_before_month (is_leap y) (nat m) + d"
    using c assms(3) by (elim disjE) (simp_all add: days_before_month_def)
  show "days_before_month (is_leap y) (nat m) + d \<le> (if is_leap y then 366 else 365)"
    using c assms(4)
    by (elim disjE) (simp_all add: days_before_month_def days_in_month_def split: if_splits)
qed

lemma ymd2ord_within_year:
  assumes "1 \<le> m" "m \<le> 12" "1 \<le> d" "d \<le> days_in_month y m"
  shows "days_before_year y < ymd2ord y m d" and "ymd2ord y m d \<le> days_before_year (y + 1)"
proof -
  have a: "1 \<le> days_before_month (is_leap y) (nat m) + d"
    using assms by (rule day_of_year_bounds(1))
  have b: "days_before_month (is_leap y) (nat m) + d \<le> (if is_leap y then 366 else 365)"
    using assms by (rule day_of_year_bounds(2))
  show "days_before_year y < ymd2ord y m d"
    using a by (simp add: ymd2ord_def)
  show "ymd2ord y m d \<le> days_before_year (y + 1)"
    using b unfolding days_before_year_next ymd2ord_def by linarith
qed

lemma ymd2ord_year_1000:
  assumes "1 \<le> m" "m \<le> 12" "1 \<le> d" "d \<le> days_in_month y m"
    and "364878 \<le> ymd2ord y m d"
  shows "1000 \<le> y"
proof (rule ccontr)
  assume "\<not> 1000 \<le> y"
  then have "y + 1 \<le> 1000" by simp
  then have "days_before_year (y + 1) \<le> days_before_year 1000"
    by (rule days_before_year_mono)
  moreover have "days_before_year 1000 = 364877"
    by (simp add: days_before_year_def)
  ultimately show False
    using ymd2ord_within_year(2) [OF assms(1-4)] assms(5) by linarith
qed

lemma days_before_month_step:
  assumes "1 \<le> m" "m \<le> 11" "d \<le> days_in_month y m"
  shows "days_before_month (is_leap y) (nat m) + d \<le> days_before_month (is_leap y) (nat (m + 1))"
proof -
  have c: "m = 1 \<or> m = 2 \<or> m = 3 \<or> m = 4 \<or> m = 5 \<or> m = 6 \<or> m = 7 \<or> m = 8 \<or> m = 9
          \<or> m = 10 \<or> m = 11"
    using assms(1,2) by arith
  show ?thesis
    using c assms(3)
    by (elim disjE) (simp_all add: days_before_month_def days_in_month_def split: if_splits)
qed

lemma days_before_month_mono:
  assumes "m \<le> m'" "m' \<le> 12"
  shows "days_before_month leap m \<le> days_before_month leap m'"
proof -
  let ?t = "[0, 0, 31, 59, 90, 120, 151, 181, 212, 243, 273, 304, 334] :: int list"
  have "sorted ?t" by simp
  then have t: "?t ! m \<le> ?t ! m'"
    by (rule sorted_nth_mono) (use assms in simp_all)
  have l: "(if 2 < m \<and> leap then 1 else 0 :: int) \<le> (if 2 < m' \<and> leap then 1 else 0)"
    using assms(1) by auto
  show ?thesis
    unfolding days_before_month_def using t l by (rule add_mono)
qed

lemma ymd2ord_inj:
  assumes v1: "1 \<le> m1" "m1 \<le> 12" "1 \<le> d1" "d1 \<le> days_in_month y1 m1"
    and v2: "1 \<le> m2" "m2 \<le> 12" "1 \<le> d2" "d2 \<le> days_in_month y2 m2"
    and eq: "ymd2ord y1 m1 d1 = ymd2ord y2 m2 d2"
  shows "y1 = y2 \<and> m1 = m2 \<and> d1 = d2"
proof -
  have ylt: False if "ya < yb" "ymd2ord ya ma da = ymd2ord yb mb db"
    "1 \<le> ma" "ma \<le> 12" "1 \<le> da" "da \<le> days_in_month ya ma"
    "1 \<le> mb" "mb \<le> 12" "1 \<le> db" "db \<le> days_in_month yb mb"
    for ya yb ma mb da db
  proof -
    have "ymd2ord ya ma da \<le> days_before_year (ya + 1)"
      using that(3-6) by (rule ymd2ord_within_year(2))
    moreover have "days_before_year (ya + 1) \<le> days_before_year yb"
      by (rule days_before_year_mono) (use that(1) in simp)
    moreover have "days_before_year yb < ymd2ord yb mb db"
      using that(7-10) by (rule ymd2ord_within_year(1))
    ultimately show False using that(2) by linarith
  qed
  have y: "y1 = y2"
    using ylt [of y1 y2 m1 d1 m2 d2] ylt [of y2 y1 m2 d2 m1 d1] v1 v2 eq
    by (cases y1 y2 rule: linorder_cases) simp_all
  have mlt: False if "ma < mb" "days_before_month (is_leap y1) (nat ma) + da
        = days_before_month (is_leap y1) (nat mb) + db"
    "1 \<le> ma" "mb \<le> 12" "da \<le> days_in_month y1 ma" "1 \<le> db"
    for ma mb da db
  proof -
    have "days_before_month (is_leap y1) (nat ma) + da
            \<le> days_before_month (is_leap y1) (nat (ma + 1))"
      by (rule days_before_month_step) (use that in simp_all)
    moreover have "days_before_month (is_leap y1) (nat (ma + 1))
            \<le> days_before_month (is_leap y1) (nat mb)"
      by (rule days_before_month_mono) (use that in simp_all)
    ultimately show False using that(2,6) by linarith
  qed
  have e: "days_before_month (is_leap y1) (nat m1) + d1
             = days_before_month (is_leap y1) (nat m2) + d2"
    using eq by (simp add: ymd2ord_def y)
  have m: "m1 = m2"
    using mlt [of m1 m2 d1 d2] mlt [of m2 m1 d2 d1] v1 v2 e y
    by (cases m1 m2 rule: linorder_cases) simp_all
  show ?thesis
    using y m e by simp
qed

lemma radix_unique:
  fixes a b r s k :: int
  assumes "0 \<le> r" "r < k" "0 \<le> s" "s < k" and "k * a + r = k * b + s"
  shows "a = b \<and> r = s"
proof -
  have "(k * a + r) div k = a" "(k * a + r) mod k = r"
    using assms(1,2) by (rule div_mod_split)+
  moreover have "(k * b + s) div k = b" "(k * b + s) mod k = s"
    using assms(3,4) by (rule div_mod_split)+
  ultimately show ?thesis
    using assms(5) by simp
qed

lemma timegm_inj:
  assumes "valid_datetime dt1" and "valid_datetime dt2" and "timegm dt1 = timegm dt2"
  shows "dt1 = dt2"
proof -
  obtain y1 mo1 d1 h1 mi1 s1 where dt1: "dt1 = Datetime y1 mo1 d1 h1 mi1 s1"
    by (cases dt1)
  obtain y2 mo2 d2 h2 mi2 s2 where dt2: "dt2 = Datetime y2 mo2 d2 h2 mi2 s2"
    by (cases dt2)
  have v1: "1 \<le> mo1" "mo1 \<le> 12" "1 \<le> d1" "d1 \<le> days_in_month y1 mo1"
    "0 \<le> h1" "h1 \<le> 23" "0 \<le> mi1" "mi1 \<le> 59" "0 \<le> s1" "s1 \<le> 59"
    using assms(1) by (simp_all add: dt1 valid_datetime_def)
  have v2: "1 \<le> mo2" "mo2 \<le> 12" "1 \<le> d2" "d2 \<le> days_in_month y2 mo2"
    "0 \<le> h2" "h2 \<le> 23" "0 \<le> mi2" "mi2 \<le> 59" "0 \<le> s2" "s2 \<le> 59"
    using assms(2) by (simp_all add: dt2 valid_datetime_def)
  have e: "86400 * (ymd2ord y1 mo1 d1 - 719163) + (3600 * h1 + (60 * mi1 + s1))
         = 86400 * (ymd2ord y2 mo2 d2 - 719163) + (3600 * h2 + (60 * mi2 + s2))"
    using assms(3) by (simp add: dt1 dt2 timegm_def)
  have "ymd2ord y1 mo1 d1 - 719163 = ymd2ord y2 mo2 d2 - 719163
        \<and> 3600 * h1 + (60 * mi1 + s1) = 3600 * h2 + (60 * mi2 + s2)"
    using _ _ _ _ e by (rule radix_unique) (use v1 v2 in linarith)+
  then have o: "ymd2ord y1 mo1 d1 = ymd2ord y2 mo2 d2"
    and t: "3600 * h1 + (60 * mi1 + s1) = 3600 * h2 + (60 * mi2 + s2)"
    by simp_all
  have "h1 = h2 \<and> 60 * mi1 + s1 = 60 * mi2 + s2"
    using _ _ _ _ t by (rule radix_unique) (use v1 v2 in linarith)+
  then have h: "h1 = h2" and u: "60 * mi1 + s1 = 60 * mi2 + s2"
    by simp_all
  have ms: "mi1 = mi2 \<and> s1 = s2"
    using _ _ _ _ u by (rule radix_unique) (use v1 v2 in linarith)+
  have "y1 = y2 \<and> mo1 = mo2 \<and> d1 = d2"
    using v1(1-4) v2(1-4) o by (rule ymd2ord_inj)
  then show ?thesis
    using h ms by (simp add: dt1 dt2)
qed

lemma utcfromtimestamp_year_1000:
  assumes "utcfromtimestamp n = Inr (Datetime y mo d h mi s)" and "- 30610224000 \<le> n"
  shows "1000 \<le> y"
proof -
  have v: "valid_datetime (Datetime y mo d h mi s)" and g: "timegm (Datetime y mo d h mi s) = n"
    using utcfromtimestamp_correct [OF assms(1)] by simp_all
  have b: "1 \<le> mo" "mo \<le> 12" "1 \<le> d" "d \<le> days_in_month y mo"
    "h \<le> 23" "mi \<le> 59" "s \<le> 59"
    using v by (simp_all add: valid_datetime_def)
  have "(ymd2ord y mo d - 719163) * 86400 + h * 3600 + mi * 60 + s = n"
    using g by (simp add: timegm_def)
  then have "- 30610224000 \<le> (ymd2ord y mo d - 719163) * 86400 + 86399"
    using assms(2) b(5-7) by linarith
  then have lo: "- 30610310399 \<le> (ymd2ord y mo d - 719163) * 86400"
    by linarith
  have "364878 \<le> ymd2ord y mo d"
  proof (rule ccontr)
    assume "\<not> 364878 \<le> ymd2ord y mo d"
    then have "ymd2ord y mo d - 719163 \<le> - 354286" by simp
    then have "(ymd2ord y mo d - 719163) * 86400 \<le> - 354286 * 86400"
      by (rule mult_right_mono) simp
    with lo show False by simp
  qed
  with b(1-4) show ?thesis
    by (rule ymd2ord_year_1000)
qed

subsection \<open>The shape of a rendered date\<close>

lemma is_digit_digit_char:
  assumes "v < 10"
  shows "is_digit (digit_char v)"
  unfolding is_digit_def digit_char_def
  by (rule nth_mem) (use assms in simp)

lemma dec_all_digits: "list_all is_digit (dec n)"
proof (induction n rule: dec.induct)
  case (1 n)
  show ?case
  proof (cases "n < 10")
    case True
    then show ?thesis by (subst dec.simps) (simp add: is_digit_digit_char)
  next
    case False
    then show ?thesis using "1.IH" by (subst dec.simps) (simp add: is_digit_digit_char)
  qed
qed

lemma length_dec_le: "0 < k \<Longrightarrow> n < 10 ^ k \<Longrightarrow> length (dec n) \<le> k"
proof (induction k arbitrary: n)
  case 0
  then show ?case by simp
next
  case (Suc k)
  show ?case
  proof (cases "n < 10")
    case True
    then show ?thesis by (subst dec.simps) simp
  next
    case False
    then have k: "0 < k" using Suc.prems(2) by (cases k) auto
    have "n div 10 < 10 ^ k" using Suc.prems(2) by (simp add: less_mult_imp_div_less mult.commute)
    then have "length (dec (n div 10)) \<le> k" using k Suc.IH by blast
    then show ?thesis using False by (subst dec.simps) simp
  qed
qed

lemma length_dec_ge: "10 ^ k \<le> n \<Longrightarrow> k < length (dec n)"
proof (induction k arbitrary: n)
  case 0
  show ?case by (subst dec.simps) simp
next
  case (Suc k)
  then have n: "\<not> n < 10"
    by (metis less_le_trans not_less one_le_numeral power_Suc power_increasing power_one_right le_add1 plus_1_eq_Suc)
  have "10 ^ k \<le> n div 10" using Suc.prems by (simp add: less_eq_div_iff_mult_less_eq mult.commute)
  then have "k < length (dec (n div 10))" by (rule Suc.IH)
  then show ?case using n by (subst dec.simps) simp
qed

lemma zfill_shape:
  assumes "0 < w" and "n < 10 ^ w"
  shows "length (zfill w (dec n)) = w" and "list_all is_digit (zfill w (dec n))"
proof -
  have "length (dec n) \<le> w" using assms by (rule length_dec_le)
  then show "length (zfill w (dec n)) = w" by (simp add: zfill_def)
  have z: "is_digit CHR ''0''" by (simp add: is_digit_def)
  have d: "\<forall>x\<in>set (dec n). is_digit x"
    using dec_all_digits [of n] by (simp add: list_all_iff)
  show "list_all is_digit (zfill w (dec n))"
    using z d by (auto simp add: zfill_def list_all_iff)
qed

lemma canonicalI:
  assumes "length A = 4" "length B = 2" "length C = 2" "length D = 2" "length E = 2" "length F = 2"
    and "list_all is_digit A" "list_all is_digit B" "list_all is_digit C"
    and "list_all is_digit D" "list_all is_digit E" "list_all is_digit F"
  shows "canonical (A @ '':'' @ B @ '':'' @ C @ '' '' @ D @ '':'' @ E @ '':'' @ F)"
  using assms by (simp add: canonical_def nth_append)

lemma days_in_month_le: "days_in_month y m \<le> 31"
  by (simp add: days_in_month_def)

lemma strftime_canonical:
  assumes "valid_datetime (Datetime y mo d h mi s)" and "pad \<or> 1000 \<le> y"
  shows "canonical (strftime pad (Datetime y mo d h mi s))"
proof -
  have v: "1 \<le> y" "y \<le> 9999" "1 \<le> mo" "mo \<le> 12" "1 \<le> d" "d \<le> 31"
    "0 \<le> h" "h \<le> 23" "0 \<le> mi" "mi \<le> 59" "0 \<le> s" "s \<le> 59"
    using assms(1) days_in_month_le [of y mo] by (simp_all add: valid_datetime_def)
  have two: "length (zfill 2 (dec (nat x))) = 2 \<and> list_all is_digit (zfill 2 (dec (nat x)))"
    if "0 \<le> x" "x \<le> 59" for x :: int
  proof -
    have "nat x < 10 ^ 2" using that by simp
    then show ?thesis using zfill_shape [of 2 "nat x"] by simp
  qed
  have y4: "nat y < 10 ^ 4" using v(1,2) by simp
  have four: "length (zfill 4 (dec (nat y))) = 4 \<and> list_all is_digit (zfill 4 (dec (nat y)))"
    using zfill_shape [of 4 "nat y"] y4 by simp
  have yy: "(if pad then zfill 4 (dec (nat y)) else dec (nat y)) = zfill 4 (dec (nat y))"
  proof (cases pad)
    case True
    then show ?thesis by simp
  next
    case False
    then have "1000 \<le> y" using assms(2) by simp
    then have "10 ^ 3 \<le> nat y" by simp
    then have "3 < length (dec (nat y))" by (rule length_dec_ge)
    then show ?thesis by (simp add: zfill_def)
  qed
  show ?thesis
    unfolding strftime_def datetime.case yy
    using four two [of mo] two [of d] two [of h] two [of mi] two [of s] v
    by (intro canonicalI) simp_all
qed

lemma fmt_0d_nonneg: "0 \<le> i \<Longrightarrow> fmt_0d w i = zfill w (dec (nat i))"
  by (simp add: fmt_0d_def)

lemma strftime_canonical_form:
  assumes "valid_datetime dt" and "pad \<or> (case dt of Datetime y mo d h mi s \<Rightarrow> 1000 \<le> y)"
  shows "strftime pad dt = canonical_form dt"
proof (cases dt)
  case (Datetime y mo d h mi s)
  have v: "1 \<le> y" "1 \<le> mo" "1 \<le> d" "0 \<le> h" "0 \<le> mi" "0 \<le> s"
    using assms(1) by (simp_all add: Datetime valid_datetime_def)
  have yy: "(if pad then zfill 4 (dec (nat y)) else dec (nat y)) = zfill 4 (dec (nat y))"
  proof (cases pad)
    case True
    then show ?thesis by simp
  next
    case False
    then have "1000 \<le> y" using assms(2) by (simp add: Datetime)
    then have "10 ^ 3 \<le> nat y" by simp
    then have "3 < length (dec (nat y))" by (rule length_dec_ge)
    then show ?thesis by (simp add: zfill_def)
  qed
  show ?thesis
    using v unfolding Datetime strftime_def canonical_form_def datetime.case yy
    by (simp add: fmt_0d_nonneg)
qed

lemma canonical_form_canonical:
  assumes "valid_datetime dt"
  shows "canonical (canonical_form dt)"
proof (cases dt)
  case (Datetime y mo d h mi s)
  have "canonical (strftime True dt)"
    using assms unfolding Datetime by (intro strftime_canonical) simp_all
  then show ?thesis
    using strftime_canonical_form [OF assms, of True] by simp
qed

text \<open>
  C5. When the formatted capture time gives no date and the timestamp is present, truthy
  and an integer \<open>n\<close> of seconds that falls in the years 1000 to 9999, \<open>resolve_date\<close>
  returns the canonical form of the one date and time that lies \<open>n\<close> seconds from the
  epoch in UTC, whatever the file name and the folder are.
\<close>

theorem timestamp_rendered_as_utc:
  assumes "map_of kvs ''photoTakenTime'' = Some (JObj pt)"
    and "map_of pt ''formatted'' = None
         \<or> (\<exists>f. map_of pt ''formatted'' = Some f
                \<and> (\<not> truthy f \<or> parse_google_formatted pad f = None))"
    and "map_of pt ''timestamp'' = Some t" and "truthy t" and "py_int t = Inr n"
    and "- 30610224000 \<le> n" and "n \<le> 253402300799"
  shows "\<exists>dt. valid_datetime dt \<and> timegm dt = n
           \<and> (\<forall>dt'. valid_datetime dt' \<and> timegm dt' = n \<longrightarrow> dt' = dt)
           \<and> resolve_date pad (JObj kvs) file_path = Inr (Some (canonical_form dt))
           \<and> canonical (canonical_form dt)"
proof -
  have "- 62135596800 \<le> n"
    using assms(6) by simp
  then obtain dt where u: "utcfromtimestamp n = Inr dt"
    using assms(7) utcfromtimestamp_Inr_iff [of n] by blast
  have v: "valid_datetime dt" and g: "timegm dt = n"
    using utcfromtimestamp_correct [OF u] by simp_all
  have y: "case dt of Datetime y mo d h mi s \<Rightarrow> 1000 \<le> y"
    using u assms(6) utcfromtimestamp_year_1000 by (cases dt) auto
  have s: "strftime pad dt = canonical_form dt"
    using v y by (intro strftime_canonical_form) simp_all
  have tr: "truthy (JObj kvs)"
    using assms(1) by (rule map_of_Some_truthy)
  have "taken_time_date pad (JObj kvs) = Inr (Some (strftime pad dt))"
    using assms(1-5) tr u
    by (auto simp add: taken_time_date_def split: option.splits)
  then have r: "resolve_date pad (JObj kvs) file_path = Inr (Some (canonical_form dt))"
    by (simp add: resolve_date_def s)
  have q: "\<forall>dt'. valid_datetime dt' \<and> timegm dt' = n \<longrightarrow> dt' = dt"
    using v g timegm_inj by blast
  show ?thesis
    using v g q r canonical_form_canonical [OF v] by blast
qed

theorem timestamp_rendered_as_utc_witness:
  "py_int (JStr ''1674765569'') = Inr 1674765569
   \<and> valid_datetime (Datetime 2023 1 26 20 39 29)
   \<and> timegm (Datetime 2023 1 26 20 39 29) = 1674765569
   \<and> resolve_date False (JObj [(''photoTakenTime'', JObj [(''timestamp'', JStr ''1674765569'')])])
        \<lparr>anchor = [], parts = [''Photos 2019'', ''IMG_20200101_000000.jpg'']\<rparr>
       = Inr (Some ''2023:01:26 20:39:29'')
   \<and> canonical ''2023:01:26 20:39:29''"
proof -
  let ?pt = "[(''timestamp'', JStr ''1674765569'')]"
  let ?p = "\<lparr>anchor = [], parts = [''Photos 2019'', ''IMG_20200101_000000.jpg'']\<rparr>"
  let ?d = "Datetime 2023 1 26 20 39 29"
  have a1: "map_of [(''photoTakenTime'', JObj ?pt)] ''photoTakenTime'' = Some (JObj ?pt)"
    by simp
  have a2: "map_of ?pt ''formatted'' = None
         \<or> (\<exists>f. map_of ?pt ''formatted'' = Some f
                \<and> (\<not> truthy f \<or> parse_google_formatted False f = None))"
    by simp
  have a3: "map_of ?pt ''timestamp'' = Some (JStr ''1674765569'')"
    by simp
  have a4: "truthy (JStr ''1674765569'')"
    by simp
  have a5: "py_int (JStr ''1674765569'') = Inr 1674765569"
    by code_simp
  have a6: "- 30610224000 \<le> (1674765569::int)" and a7: "(1674765569::int) \<le> 253402300799"
    by simp_all
  have v: "valid_datetime ?d"
    by code_simp
  have g: "timegm ?d = 1674765569"
    by code_simp
  have c: "canonical_form ?d = ''2023:01:26 20:39:29''"
    by code_simp
  obtain dt where u: "\<forall>dt'. valid_datetime dt' \<and> timegm dt' = 1674765569 \<longrightarrow> dt' = dt"
    and r: "resolve_date False (JObj [(''photoTakenTime'', JObj ?pt)]) ?p
              = Inr (Some (canonical_form dt))"
    and k: "canonical (canonical_form dt)"
    using timestamp_rendered_as_utc [OF a1 a2 a3 a4 a5 a6 a7, of ?p] by blast
  have "dt = ?d"
    using u v g by blast
  then show ?thesis
    using a5 v g r k c by simp
qed

text \<open>
  As C5 is worded, every timestamp that is present and truthy is rendered. The
  timestamp below is the first second of year 10000, which has no canonical form:
  \<open>resolve_date\<close> raises.
\<close>

theorem timestamp_after_year_9999_raises:
  "py_int (JStr ''253402300800'') = Inr 253402300800
   \<and> resolve_date True
        (JObj [(''photoTakenTime'', JObj [(''timestamp'', JStr ''253402300800'')])])
        \<lparr>anchor = [], parts = [''Album'', ''IMG.jpg'']\<rparr> = Inl ValueError"
  by code_simp

text \<open>
  C10. Every string that \<open>resolve_date\<close> returns should have the canonical shape. Where
  \<open>%Y\<close> prints the year as it is, a sidecar year below 1000 gives a shorter string: the
  timestamp below is the first second of year 1.
\<close>

theorem year_below_1000_not_canonical:
  "resolve_date False
     (JObj [(''photoTakenTime'', JObj [(''timestamp'', JStr ''-62135596800'')])])
     \<lparr>anchor = [], parts = [''Album'', ''IMG.jpg'']\<rparr> = Inr (Some ''1:01:01 00:00:00'')
   \<and> \<not> canonical ''1:01:01 00:00:00''"
  by code_simp

end
